theory Spec2Isabelle
  imports Complex_Main "HOL-Library.Word"
begin

section \<open>The O1280 octahedral grid: constants and ring geometry\<close>

text \<open>
  The scripts fix the grid resolution in module-level constants (\<open>N = 1280\<close>,
  \<open>NUM_RINGS = 2 * N\<close>) and the raster size (\<open>WIDTH = 1024\<close>, \<open>HEIGHT = 512\<close>).
  Finite Python floats are idealised as real numbers. Two float effects are kept, because
  \<open>int()\<close> raises on them: a product that overflows to infinity (see \<open>py_int\<close>), and
  the infinities and NaN that a data file can hold or a division by zero can produce (see
  \<open>fl\<close>).
\<close>

definition N :: nat where
  "N = 1280"

definition NUM_RINGS :: nat where
  "NUM_RINGS = 2 * N"

definition WIDTH :: nat where
  "WIDTH = 1024"

definition HEIGHT :: nat where
  "HEIGHT = 512"

definition O1280_POINTS :: nat where
  "O1280_POINTS = 6599680"

text \<open>
  Both \<open>generate_ring_offsets\<close> and \<open>get_value\<close> compute the point count of a ring inline:
  \<^verbatim>\<open>ring_from_pole = i + 1 if i < N else NUM_RINGS - i\<close> and
  \<^verbatim>\<open>points_in_ring = 4 * ring_from_pole + 16\<close>.
\<close>

definition ring_from_pole :: "nat \<Rightarrow> nat" where
  "ring_from_pole i = (if i < N then i + 1 else NUM_RINGS - i)"

definition points_in_ring :: "nat \<Rightarrow> nat" where
  "points_in_ring i = 4 * ring_from_pole i + 16"

subsection \<open>\<open>generate_ring_offsets\<close>\<close>

text \<open>
  \<^verbatim>\<open>
  offsets = np.zeros(NUM_RINGS, dtype=np.uint32)
  cumulative = 0
  for i in range(NUM_RINGS):
      offsets[i] = cumulative
      ring_from_pole = i + 1 if i < N else NUM_RINGS - i
      points_in_ring = 4 * ring_from_pole + 16
      cumulative += points_in_ring
  return offsets
  \<close>
  The loop state is the pair of the \<open>uint32\<close> array and the Python integer
  \<open>cumulative\<close>; the store into the array truncates to 32 bits.
\<close>

definition offsets_step :: "32 word list \<times> nat \<Rightarrow> nat \<Rightarrow> 32 word list \<times> nat" where
  "offsets_step s i =
     (case s of (offsets, cumulative) \<Rightarrow>
        (offsets[i := of_nat cumulative], cumulative + points_in_ring i))"

definition generate_ring_offsets :: "32 word list" where
  "generate_ring_offsets =
     fst (foldl offsets_step (replicate NUM_RINGS 0, 0) [0..<NUM_RINGS])"

subsection \<open>\<open>generate_gaussian_lats\<close>\<close>

text \<open>
  \<^verbatim>\<open>
  lats = np.zeros(NUM_RINGS, dtype=np.float32)
  for i in range(NUM_RINGS):
      lat_deg = 90 - (i + 0.5) * 180 / NUM_RINGS
      lats[i] = np.radians(lat_deg)
  return lats
  \<close>
  \<open>np.radians\<close> multiplies by \<open>\<pi>/180\<close>.
\<close>

definition radians :: "real \<Rightarrow> real" where
  "radians d = d * pi / 180"

definition lats_step :: "real list \<Rightarrow> nat \<Rightarrow> real list" where
  "lats_step lats i =
     (let lat_deg = 90 - (real i + 0.5) * 180 / real NUM_RINGS
      in lats[i := radians lat_deg])"

definition generate_gaussian_lats :: "real list" where
  "generate_gaussian_lats = foldl lats_step (replicate NUM_RINGS 0) [0..<NUM_RINGS]"

subsection \<open>\<open>find_ring\<close>\<close>

text \<open>
  \<^verbatim>\<open>return np.searchsorted(-lats, -lat)\<close>

  \<open>np.searchsorted\<close> with the default \<open>side='left'\<close> is NumPy's binary search: it
  keeps a half-open window \<open>[lo, hi)\<close>, starting from the whole array, and moves \<open>lo\<close>
  past the midpoint exactly when the element there is smaller than the key. It never fails;
  its result lies between 0 and the length of the array.
\<close>

function bsearch_left :: "real list \<Rightarrow> real \<Rightarrow> nat \<Rightarrow> nat \<Rightarrow> nat" where
  "bsearch_left a v lo hi =
     (if lo < hi
      then (if a ! (lo + (hi - lo) div 2) < v
            then bsearch_left a v (lo + (hi - lo) div 2 + 1) hi
            else bsearch_left a v lo (lo + (hi - lo) div 2))
      else lo)"
  by pat_completeness auto
termination
  by (relation "measure (\<lambda>(a, v, lo, hi). hi - lo)") auto

definition searchsorted :: "real list \<Rightarrow> real \<Rightarrow> nat" where
  "searchsorted a v = bsearch_left a v 0 (length a)"

definition find_ring :: "real \<Rightarrow> real list \<Rightarrow> nat" where
  "find_ring lat lats = searchsorted (map uminus lats) (- lat)"

subsection \<open>\<open>get_value\<close>\<close>

text \<open>
  \<^verbatim>\<open>
  def get_value(lat, lon, data, lats, offsets):
      ring = find_ring(lat, lats)
      ring = min(ring, NUM_RINGS - 1)
      ring_from_pole = ring + 1 if ring < N else NUM_RINGS - ring
      n_points = 4 * ring_from_pole + 16
      lon_norm = lon if lon >= 0 else lon + 2 * np.pi
      lon_idx = int(lon_norm / (2 * np.pi) * n_points) % n_points
      idx = offsets[ring] + lon_idx
      return data[idx] if idx < len(data) else 0
  \<close>
  (\<open>get_temp\<close> in the hue-mode script has the same body.)

  Python's \<open>int()\<close> truncates toward zero and raises \<open>OverflowError\<close> on an infinite
  float. A double product whose magnitude exceeds the largest finite double
  \<open>(2 - 2\<^sup>-\<^sup>5\<^sup>2) \<sqdot> 2\<^sup>1\<^sup>0\<^sup>2\<^sup>3\<close> is infinite, so that is where \<open>py_int\<close> raises. Python's \<open>%\<close>
  with a positive modulus is non-negative, as HOL's \<open>mod\<close> on \<open>int\<close> is. Indexing an
  array past its end raises \<open>IndexError\<close>. The sum \<open>offsets[ring] + lon_idx\<close> is formed in
  a 64-bit integer and is read here as a natural number. The function does no arithmetic
  on the array elements, so their type is left open: all it needs is the sentinel 0.
\<close>

datatype py_error = OverflowError | IndexError | ValueError

definition DBL_MAX :: real where
  "DBL_MAX = (2 - 1 / 2 ^ 52) * 2 ^ 1023"

definition trunc :: "real \<Rightarrow> int" where
  "trunc x = (if 0 \<le> x then \<lfloor>x\<rfloor> else \<lceil>x\<rceil>)"

definition py_int :: "real \<Rightarrow> py_error + int" where
  "py_int x = (if DBL_MAX < \<bar>x\<bar> then Inl OverflowError else Inr (trunc x))"

text \<open>Lines 1-2 of the body: the ring, clamped to the last one.\<close>

definition locate_ring :: "real \<Rightarrow> real list \<Rightarrow> nat" where
  "locate_ring lat lats = min (find_ring lat lats) (NUM_RINGS - 1)"

text \<open>The float handed to \<open>int()\<close>, and the point index within a ring of \<open>n_points\<close> points.\<close>

definition lon_scaled :: "real \<Rightarrow> nat \<Rightarrow> real" where
  "lon_scaled lon n_points =
     (let lon_norm = (if lon \<ge> 0 then lon else lon + 2 * pi)
      in lon_norm / (2 * pi) * real n_points)"

definition lon_index :: "real \<Rightarrow> nat \<Rightarrow> py_error + nat" where
  "lon_index lon n_points =
     (case py_int (lon_scaled lon n_points) of
        Inl e \<Rightarrow> Inl e
      | Inr k \<Rightarrow> Inr (nat (k mod int n_points)))"

definition get_value ::
  "real \<Rightarrow> real \<Rightarrow> 'a::zero list \<Rightarrow> real list \<Rightarrow> 32 word list \<Rightarrow> py_error + 'a" where
  "get_value lat lon data lats offsets =
     (let ring = locate_ring lat lats;
          n_points = points_in_ring ring
      in case lon_index lon n_points of
           Inl e \<Rightarrow> Inl e
         | Inr lon_idx \<Rightarrow>
             if ring < length offsets
             then (let idx = unat (offsets ! ring) + lon_idx
                   in Inr (if idx < length data then data ! idx else 0))
             else Inl IndexError)"

section \<open>Float values with infinities and NaN\<close>

text \<open>
  A \<open>.bin\<close> file can hold any \<open>float32\<close>, also the infinities and NaN, and NumPy's float
  division by zero gives an infinity or NaN (with a warning) instead of raising. Where a
  script's outcome depends on that, a float is a value of \<open>fl\<close>: a finite value (a real, so
  rounding is still idealised, and zero has no sign), \<open>+inf\<close>, \<open>-inf\<close> or NaN, with the
  IEEE 754 rules for the special values. \<open>int()\<close> raises \<open>ValueError\<close> on NaN and
  \<open>OverflowError\<close> on an infinity; \<open>np.min\<close> and \<open>np.max\<close> raise \<open>ValueError\<close> on an
  empty array and return NaN when the array holds one.
\<close>

datatype fl = Fin real | PInf | NInf | NaN

instantiation fl :: zero
begin

definition zero_fl :: fl where
  "zero_fl = Fin 0"

instance ..

end

fun fl_neg :: "fl \<Rightarrow> fl" where
  "fl_neg (Fin a) = Fin (- a)"
| "fl_neg PInf = NInf"
| "fl_neg NInf = PInf"
| "fl_neg NaN = NaN"

fun fl_nonneg :: "fl \<Rightarrow> bool" where
  "fl_nonneg (Fin a) = (0 \<le> a)"
| "fl_nonneg PInf = True"
| "fl_nonneg NInf = False"
| "fl_nonneg NaN = True"

definition fl_inf :: "bool \<Rightarrow> fl" where
  "fl_inf positive = (if positive then PInf else NInf)"

fun fl_add :: "fl \<Rightarrow> fl \<Rightarrow> fl" where
  "fl_add NaN y = NaN"
| "fl_add x NaN = NaN"
| "fl_add (Fin a) (Fin b) = Fin (a + b)"
| "fl_add PInf NInf = NaN"
| "fl_add NInf PInf = NaN"
| "fl_add PInf y = PInf"
| "fl_add NInf y = NInf"
| "fl_add x PInf = PInf"
| "fl_add x NInf = NInf"

definition fl_sub :: "fl \<Rightarrow> fl \<Rightarrow> fl" where
  "fl_sub x y = fl_add x (fl_neg y)"

fun fl_mul :: "fl \<Rightarrow> fl \<Rightarrow> fl" where
  "fl_mul NaN y = NaN"
| "fl_mul x NaN = NaN"
| "fl_mul (Fin a) (Fin b) = Fin (a * b)"
| "fl_mul (Fin a) y = (if a = 0 then NaN else fl_inf (0 < a \<longleftrightarrow> fl_nonneg y))"
| "fl_mul x (Fin b) = (if b = 0 then NaN else fl_inf (fl_nonneg x \<longleftrightarrow> 0 < b))"
| "fl_mul x y = fl_inf (fl_nonneg x \<longleftrightarrow> fl_nonneg y)"

fun fl_div :: "fl \<Rightarrow> fl \<Rightarrow> fl" where
  "fl_div NaN y = NaN"
| "fl_div x NaN = NaN"
| "fl_div (Fin a) (Fin b) =
     (if b = 0 then (if a = 0 then NaN else fl_inf (0 < a)) else Fin (a / b))"
| "fl_div (Fin a) y = Fin 0"
| "fl_div x (Fin b) = fl_inf (fl_nonneg x \<longleftrightarrow> 0 \<le> b)"
| "fl_div x y = NaN"

fun fl_less :: "fl \<Rightarrow> fl \<Rightarrow> bool" where
  "fl_less NaN y = False"
| "fl_less x NaN = False"
| "fl_less (Fin a) (Fin b) = (a < b)"
| "fl_less NInf NInf = False"
| "fl_less NInf y = True"
| "fl_less x NInf = False"
| "fl_less PInf y = False"
| "fl_less x PInf = True"

fun fl_is_nan :: "fl \<Rightarrow> bool" where
  "fl_is_nan NaN = True"
| "fl_is_nan x = False"

definition fl_min2 :: "fl \<Rightarrow> fl \<Rightarrow> fl" where
  "fl_min2 x y = (if fl_is_nan x \<or> fl_is_nan y then NaN else if fl_less y x then y else x)"

definition fl_max2 :: "fl \<Rightarrow> fl \<Rightarrow> fl" where
  "fl_max2 x y = (if fl_is_nan x \<or> fl_is_nan y then NaN else if fl_less x y then y else x)"

fun np_min :: "fl list \<Rightarrow> py_error + fl" where
  "np_min [] = Inl ValueError"
| "np_min (x # xs) = Inr (foldl fl_min2 x xs)"

fun np_max :: "fl list \<Rightarrow> py_error + fl" where
  "np_max [] = Inl ValueError"
| "np_max (x # xs) = Inr (foldl fl_max2 x xs)"

fun int_fl :: "fl \<Rightarrow> py_error + int" where
  "int_fl NaN = Inl ValueError"
| "int_fl PInf = Inl OverflowError"
| "int_fl NInf = Inl OverflowError"
| "int_fl (Fin a) = py_int a"

section \<open>The two converters\<close>

subsection \<open>Command line of \<open>main\<close>\<close>

text \<open>
  Both scripts start \<open>main\<close> the same way (only the usage text differs):
  \<^verbatim>\<open>
  if len(sys.argv) < 2:
      print("Usage: python temp-to-png.py <input.bin> [output.png]")
      sys.exit(1)
  input_file = sys.argv[1]
  output_file = sys.argv[2] if len(sys.argv) > 2 else input_file.replace('.bin', '.png')
  \<close>
  \<open>print\<close> without a \<open>file=\<close> argument writes to standard output. \<open>sys.argv[0]\<close> is the
  script name. \<open>str.replace(old, new)\<close> replaces every non-overlapping occurrence of
  \<open>old\<close>, scanning from the left; for an empty \<open>old\<close> it puts \<open>new\<close> before every
  character and at the end.
\<close>

datatype stream = Stdout | Stderr

datatype cli_outcome =
    Exit "(stream \<times> string) list" int
  | Run string string

function str_replace :: "string \<Rightarrow> string \<Rightarrow> string \<Rightarrow> string" where
  "str_replace old new s =
     (if old = [] then new @ concat (map (\<lambda>c. c # new) s)
      else if s = [] then []
      else if take (length old) s = old
           then new @ str_replace old new (drop (length old) s)
           else hd s # str_replace old new (tl s))"
  by pat_completeness auto
termination
  by (relation "measure (\<lambda>(old, new, s). length s)") auto

definition usage_gray :: string where
  "usage_gray = ''Usage: python temp-to-png.py <input.bin> [output.png]''"

definition usage_hue :: string where
  "usage_hue = ''Usage: python temp-to-png.py <input.temp.bin> [output.png]''"

definition main_args :: "string \<Rightarrow> string list \<Rightarrow> cli_outcome" where
  "main_args usage argv =
     (if length argv < 2 then Exit [(Stdout, usage)] 1
      else (let input_file = argv ! 1;
                output_file = (if length argv > 2 then argv ! 2
                               else str_replace ''.bin'' ''.png'' input_file)
            in Run input_file output_file))"

subsection \<open>Raster geometry\<close>

text \<open>
  \<^verbatim>\<open>lat = (0.5 - y / HEIGHT) * np.pi\<close> and \<^verbatim>\<open>lon = (x / WIDTH) * 2 * np.pi - np.pi\<close>.
  A nested loop over \<open>y\<close> and \<open>x\<close> stops at the first pixel that raises; \<open>collect\<close> does
  the same on a list of results.
\<close>

definition pixel_lat :: "nat \<Rightarrow> real" where
  "pixel_lat y = (0.5 - real y / real HEIGHT) * pi"

definition pixel_lon :: "nat \<Rightarrow> real" where
  "pixel_lon x = (real x / real WIDTH) * 2 * pi - pi"

fun collect :: "('e + 'a) list \<Rightarrow> 'e + 'a list" where
  "collect [] = Inr []"
| "collect (Inl e # rs) = Inl e"
| "collect (Inr v # rs) = (case collect rs of Inl e \<Rightarrow> Inl e | Inr vs \<Rightarrow> Inr (v # vs))"

subsection \<open>Hue mode (\<open>test/temp-to-png.py\<close>)\<close>

text \<open>
  \<^verbatim>\<open>
  def temp_to_rgb(temp_c):
      t = max(0, min(1, (temp_c + 50) / 100))
      if t < 0.25:   r, g, b = 0, t * 4, 1
      elif t < 0.5:  r, g, b = 0, 1, 1 - (t - 0.25) * 4
      elif t < 0.75: r, g, b = (t - 0.5) * 4, 1, 0
      else:          r, g, b = 1, 1 - (t - 0.75) * 4, 0
      return int(r * 255), int(g * 255), int(b * 255)
  \<close>
  The channels lie between 0 and 1, so \<open>int()\<close> only truncates here.
  \<open>get_temp\<close> is \<open>get_value\<close> under another name; \<open>main\<close> colours each sample at once.
\<close>

definition temp_to_rgb :: "real \<Rightarrow> int \<times> int \<times> int" where
  "temp_to_rgb temp_c =
     (let t = max 0 (min 1 ((temp_c + 50) / 100));
          rgb = (if t < 0.25 then (0, t * 4, 1)
                 else if t < 0.5 then (0, 1, 1 - (t - 0.25) * 4)
                 else if t < 0.75 then ((t - 0.5) * 4, 1, 0)
                 else (1, 1 - (t - 0.75) * 4, 0))
      in case rgb of (r, g, b) \<Rightarrow> (trunc (r * 255), trunc (g * 255), trunc (b * 255)))"

definition get_temp ::
  "real \<Rightarrow> real \<Rightarrow> real list \<Rightarrow> real list \<Rightarrow> 32 word list \<Rightarrow> py_error + real" where
  "get_temp = get_value"

definition render_hue :: "real list \<Rightarrow> py_error + (int \<times> int \<times> int) list list" where
  "render_hue data =
     (let lats = generate_gaussian_lats; offsets = generate_ring_offsets
      in collect (map (\<lambda>y.
           collect (map (\<lambda>x.
             case get_temp (pixel_lat y) (pixel_lon x) data lats offsets of
               Inl e \<Rightarrow> Inl e
             | Inr temp \<Rightarrow> Inr (temp_to_rgb temp)) [0..<WIDTH])) [0..<HEIGHT]))"

subsection \<open>Grayscale mode (\<open>scripts/temp-to-png.py\<close>)\<close>

text \<open>
  \<^verbatim>\<open>
  data = np.fromfile(input_file, dtype=np.float32)
  print(f"Raw data range: {np.min(data):.2f} to {np.max(data):.2f}")
  ...
  values = np.zeros((HEIGHT, WIDTH), dtype=np.float32)
  for y in range(HEIGHT):
      lat = (0.5 - y / HEIGHT) * np.pi
      for x in range(WIDTH):
          lon = (x / WIDTH) * 2 * np.pi - np.pi
          values[y, x] = get_value(lat, lon, data, lats, offsets)
  data_min = float(np.min(values))
  data_max = float(np.max(values))
  data_range = data_max - data_min if data_max > data_min else 1
  ...
  for y in range(HEIGHT):
      for x in range(WIDTH):
          val = values[y, x]
          gray = int(255 * (val - data_min) / data_range)
          gray = max(0, min(255, gray))
          pixels[x, y] = gray
  \<close>
  The array read from the file is a list of \<open>fl\<close>. The first \<open>print\<close> already takes the
  minimum and maximum of the raw data, which raises on an empty file.
\<close>

definition first_pass :: "fl list \<Rightarrow> py_error + fl list list" where
  "first_pass data =
     (let lats = generate_gaussian_lats; offsets = generate_ring_offsets
      in collect (map (\<lambda>y.
           collect (map (\<lambda>x. get_value (pixel_lat y) (pixel_lon x) data lats offsets)
             [0..<WIDTH])) [0..<HEIGHT]))"

definition range_of :: "fl \<Rightarrow> fl \<Rightarrow> fl" where
  "range_of data_min data_max =
     (if fl_less data_min data_max then fl_sub data_max data_min else Fin 1)"

definition gray_level :: "fl \<Rightarrow> fl \<Rightarrow> fl \<Rightarrow> py_error + int" where
  "gray_level val data_min data_range =
     (case int_fl (fl_div (fl_mul (Fin 255) (fl_sub val data_min)) data_range) of
        Inl e \<Rightarrow> Inl e
      | Inr gray \<Rightarrow> Inr (max 0 (min 255 gray)))"

definition second_pass :: "fl list list \<Rightarrow> py_error + int list list" where
  "second_pass values =
     (case np_min (concat values) of
        Inl e \<Rightarrow> Inl e
      | Inr data_min \<Rightarrow>
          (case np_max (concat values) of
             Inl e \<Rightarrow> Inl e
           | Inr data_max \<Rightarrow>
               (let data_range = range_of data_min data_max
                in collect (map (\<lambda>row.
                     collect (map (\<lambda>val. gray_level val data_min data_range) row)) values))))"

definition render_gray :: "fl list \<Rightarrow> py_error + int list list" where
  "render_gray data =
     (case np_min data of
        Inl e \<Rightarrow> Inl e
      | Inr raw_min \<Rightarrow>
          (case np_max data of
             Inl e \<Rightarrow> Inl e
           | Inr raw_max \<Rightarrow>
               (case first_pass data of
                  Inl e \<Rightarrow> Inl e
                | Inr values \<Rightarrow> second_pass values)))"

section \<open>The fixture generators\<close>

subsection \<open>\<open>generate_gaussian_grid\<close>\<close>

text \<open>
  Both fixture scripts list the coordinates of every grid point, ring by ring:
  \<^verbatim>\<open>
  idx = 0
  for ring in range(NUM_RINGS):
      lat_deg = 90 - (ring + 0.5) * 180 / NUM_RINGS
      lat_rad = np.radians(lat_deg)
      ring_from_pole = ring + 1 if ring < N else NUM_RINGS - ring
      n_points = 4 * ring_from_pole + 16
      for i in range(n_points):
          lon_rad = (2 * np.pi * i) / n_points
          lats[idx] = lat_rad
          lons[idx] = lon_rad
          idx += 1
  return lats, lons
  \<close>
  The two arrays have \<open>O1280_POINTS\<close> slots and the loops fill the slots \<open>0, 1, 2, \<dots>\<close> in
  order, so the arrays are the concatenation of the rings.
\<close>

definition ring_points :: "nat \<Rightarrow> (real \<times> real) list" where
  "ring_points ring =
     (let lat_deg = 90 - (real ring + 0.5) * 180 / real NUM_RINGS;
          lat_rad = radians lat_deg;
          n_points = points_in_ring ring
      in map (\<lambda>i. (lat_rad, (2 * pi * real i) / real n_points)) [0..<n_points])"

definition generate_gaussian_grid :: "real list \<times> real list" where
  "generate_gaussian_grid =
     (let points = concat (map ring_points [0..<NUM_RINGS])
      in (map fst points, map snd points))"

subsection \<open>Distance to a centre\<close>

text \<open>
  Both generators measure the distance of a grid point from a centre the same way
  (\<open>angular_distance\<close> in the pressure script, inline in the wind script):
  \<^verbatim>\<open>
  dlat = lat1 - lat2
  dlon = lon1 - lon2
  dlon = np.where(dlon > np.pi, dlon - 2*np.pi, dlon)
  dlon = np.where(dlon < -np.pi, dlon + 2*np.pi, dlon)
  dlon_scaled = dlon * np.cos(lat1)
  return np.sqrt(dlat**2 + dlon_scaled**2)
  \<close>
  NumPy applies every operation element by element, so the generators are modelled at one
  grid point and mapped over the arrays.
\<close>

definition wrap_dlon :: "real \<Rightarrow> real" where
  "wrap_dlon dlon =
     (let d1 = (if dlon > pi then dlon - 2 * pi else dlon)
      in if d1 < - pi then d1 + 2 * pi else d1)"

definition angular_distance :: "real \<Rightarrow> real \<Rightarrow> real \<Rightarrow> real \<Rightarrow> real" where
  "angular_distance lat1 lon1 lat2 lon2 =
     (let dlat = lat1 - lat2;
          dlon = wrap_dlon (lon1 - lon2);
          dlon_scaled = dlon * cos lat1
      in sqrt (dlat\<^sup>2 + dlon_scaled\<^sup>2))"

subsection \<open>\<open>generate_cyclone\<close>\<close>

text \<open>
  \<^verbatim>\<open>
  speed = np.zeros_like(dist)
  inside_core = dist < core_radius
  speed[inside_core] = max_wind * (dist[inside_core] / core_radius)
  between = (dist >= core_radius) & (dist < outer_radius)
  decay = 1 - (dist[between] - core_radius) / (outer_radius - core_radius)
  speed[between] = max_wind * decay
  dist_safe = np.maximum(dist, 1e-6)
  tang_lat = -dlon_scaled / dist_safe
  tang_lon = dlat / dist_safe
  radial_strength = 0.3
  rad_lat = -dlat / dist_safe
  rad_lon = -dlon_scaled / dist_safe
  u = speed * (tang_lon + radial_strength * rad_lon)
  v = speed * (tang_lat + radial_strength * rad_lat)
  \<close>
  The two masked assignments divide only where their mask holds, and there the divisor is
  positive. (\<open>dist\<close> is written \<open>distance\<close> below.)
\<close>

definition speed_inside :: "real \<Rightarrow> real \<Rightarrow> real \<Rightarrow> real" where
  "speed_inside max_wind distance core_radius = max_wind * (distance / core_radius)"

definition speed_between :: "real \<Rightarrow> real \<Rightarrow> real \<Rightarrow> real \<Rightarrow> real" where
  "speed_between max_wind distance core_radius outer_radius =
     max_wind * (1 - (distance - core_radius) / (outer_radius - core_radius))"

definition cyclone_speed :: "real \<Rightarrow> real \<Rightarrow> real \<Rightarrow> real \<Rightarrow> real" where
  "cyclone_speed distance max_wind core_radius outer_radius =
     (let speed0 = 0;
          speed1 = (if distance < core_radius then speed_inside max_wind distance core_radius
                    else speed0)
      in if distance \<ge> core_radius \<and> distance < outer_radius
         then speed_between max_wind distance core_radius outer_radius
         else speed1)"

definition dist_safe :: "real \<Rightarrow> real" where
  "dist_safe distance = max distance (1 / 1000000)"

text \<open>
  The distance and the speed of a point are finite. The four quotients by \<open>dist_safe\<close> are
  where NumPy would produce NaN or an infinity on a zero divisor, so they and what is
  computed from them are \<open>fl\<close> values.
\<close>

definition cyclone_point ::
  "real \<Rightarrow> real \<Rightarrow> real \<Rightarrow> real \<Rightarrow> real \<Rightarrow> real \<Rightarrow> real \<Rightarrow> fl \<times> fl" where
  "cyclone_point lat lon center_lat center_lon max_wind core_radius outer_radius =
     (let dlat = lat - center_lat;
          dlon = wrap_dlon (lon - center_lon);
          dlon_scaled = dlon * cos lat;
          distance = sqrt (dlat\<^sup>2 + dlon_scaled\<^sup>2);
          speed = cyclone_speed distance max_wind core_radius outer_radius;
          tang_lat = fl_div (Fin (- dlon_scaled)) (Fin (dist_safe distance));
          tang_lon = fl_div (Fin dlat) (Fin (dist_safe distance));
          radial_strength = Fin 0.3;
          rad_lat = fl_div (Fin (- dlat)) (Fin (dist_safe distance));
          rad_lon = fl_div (Fin (- dlon_scaled)) (Fin (dist_safe distance));
          u = fl_mul (Fin speed) (fl_add tang_lon (fl_mul radial_strength rad_lon));
          v = fl_mul (Fin speed) (fl_add tang_lat (fl_mul radial_strength rad_lat))
      in (u, v))"

definition generate_cyclone ::
  "real list \<Rightarrow> real list \<Rightarrow> real \<Rightarrow> real \<Rightarrow> real \<Rightarrow> real \<Rightarrow> real \<Rightarrow> fl list \<times> fl list" where
  "generate_cyclone lats lons center_lat center_lon max_wind core_radius outer_radius =
     (let uv = map (\<lambda>(lat, lon).
                 cyclone_point lat lon center_lat center_lon max_wind core_radius outer_radius)
               (zip lats lons)
      in (map fst uv, map snd uv))"

subsection \<open>\<open>generate_pressure\<close>\<close>

text \<open>
  The centres are module constants; the field at a grid point is
  \<^verbatim>\<open>
  sigma = INFLUENCE_RADIUS / 2
  low_influence = np.exp(-0.5 * (dist_to_low / sigma)**2)        # likewise the other three
  low_anomaly = (LOW_PRESSURE - BASE_PRESSURE) * (low_influence + low_influence_mirror)
  high_anomaly = (HIGH_PRESSURE - BASE_PRESSURE) * (high_influence + high_influence_mirror)
  pressure = BASE_PRESSURE + low_anomaly + high_anomaly
  np.random.seed(42)
  noise = np.random.uniform(-NOISE_AMPLITUDE, NOISE_AMPLITUDE, len(pressure))
  pressure += noise
  pressure = np.clip(pressure, 97600, 104800)
  \<close>
  The stream of the seeded generator is NumPy's, not this repository's: the noise is a
  parameter, \<open>noise i\<close> being the draw for point \<open>i\<close>.
\<close>

definition LOW_LAT :: real where "LOW_LAT = 10"
definition LOW_LON :: real where "LOW_LON = 10"
definition HIGH_LAT :: real where "HIGH_LAT = - 10"
definition HIGH_LON :: real where "HIGH_LON = - 10"
definition BASE_PRESSURE :: real where "BASE_PRESSURE = 101200"
definition LOW_PRESSURE :: real where "LOW_PRESSURE = 97600"
definition HIGH_PRESSURE :: real where "HIGH_PRESSURE = 104800"
definition INFLUENCE_RADIUS :: real where "INFLUENCE_RADIUS = 0.5"

definition influence :: "real \<Rightarrow> real \<Rightarrow> real" where
  "influence distance sigma = exp (- 0.5 * (distance / sigma)\<^sup>2)"

definition pressure_field :: "real \<Rightarrow> real \<Rightarrow> real" where
  "pressure_field lat lon =
     (let low_lat_rad = radians LOW_LAT;
          low_lon_rad = radians LOW_LON;
          high_lat_rad = radians HIGH_LAT;
          high_lon_rad = radians HIGH_LON;
          low_lat_rad_mirror = - low_lat_rad;
          low_lon_rad_mirror = low_lon_rad + pi;
          high_lat_rad_mirror = - high_lat_rad;
          high_lon_rad_mirror = high_lon_rad + pi;
          dist_to_low = angular_distance lat lon low_lat_rad low_lon_rad;
          dist_to_high = angular_distance lat lon high_lat_rad high_lon_rad;
          dist_to_low_mirror = angular_distance lat lon low_lat_rad_mirror low_lon_rad_mirror;
          dist_to_high_mirror = angular_distance lat lon high_lat_rad_mirror high_lon_rad_mirror;
          sigma = INFLUENCE_RADIUS / 2;
          low_anomaly = (LOW_PRESSURE - BASE_PRESSURE)
            * (influence dist_to_low sigma + influence dist_to_low_mirror sigma);
          high_anomaly = (HIGH_PRESSURE - BASE_PRESSURE)
            * (influence dist_to_high sigma + influence dist_to_high_mirror sigma)
      in BASE_PRESSURE + low_anomaly + high_anomaly)"

definition clip :: "real \<Rightarrow> real \<Rightarrow> real \<Rightarrow> real" where
  "clip x lo hi = min hi (max lo x)"

definition generate_pressure :: "(nat \<Rightarrow> real) \<Rightarrow> real list \<Rightarrow> real list \<Rightarrow> real list" where
  "generate_pressure noise lats lons =
     map (\<lambda>(i, lat, lon). clip (pressure_field lat lon + noise i) 97600 104800)
       (zip [0..<length lats] (zip lats lons))"

text \<open>
  The specification's wording of the same field, for comparison: the longitude difference
  wrapped into \<open>(-\<pi>, \<pi>]\<close>, and one Gaussian anomaly per source.
\<close>

definition spec_wrap :: "real \<Rightarrow> real" where
  "spec_wrap d = d - 2 * pi * of_int \<lceil>(d - pi) / (2 * pi)\<rceil>"

definition spec_dist :: "real \<Rightarrow> real \<Rightarrow> real \<Rightarrow> real \<Rightarrow> real" where
  "spec_dist lat lon center_lat center_lon =
     sqrt ((lat - center_lat)\<^sup>2 + (spec_wrap (lon - center_lon) * cos lat)\<^sup>2)"

definition spec_anomaly :: "real \<Rightarrow> real \<Rightarrow> real \<Rightarrow> real \<Rightarrow> real \<Rightarrow> real" where
  "spec_anomaly target lat lon center_lat center_lon =
     (target - BASE_PRESSURE)
       * exp (- 0.5 * (spec_dist lat lon center_lat center_lon / (INFLUENCE_RADIUS / 2))\<^sup>2)"

section \<open>Properties of the offset table\<close>

lemma points_in_ring_low: "i < N \<Longrightarrow> points_in_ring i = 4 * i + 20"
  by (simp add: points_in_ring_def ring_from_pole_def)

lemma points_in_ring_high: "j < N \<Longrightarrow> points_in_ring (N + j) = 4 * (N - j) + 16"
  by (simp add: points_in_ring_def ring_from_pole_def NUM_RINGS_def)

lemma points_in_ring_mirror: "j < N \<Longrightarrow> points_in_ring (N + j) = points_in_ring (N - 1 - j)"
  by (simp add: points_in_ring_low points_in_ring_high)

lemma sum_points_north: "k \<le> N \<Longrightarrow> (\<Sum>j<k. points_in_ring j) = 2 * k * k + 18 * k"
proof (induction k)
  case 0
  show ?case by simp
next
  case (Suc k)
  then have "k < N" by simp
  with Suc show ?case by (simp add: points_in_ring_low algebra_simps)
qed

lemma sum_points_south: "(\<Sum>j<N. points_in_ring (N + j)) = 2 * N * N + 18 * N"
proof -
  have "(\<Sum>j<N. points_in_ring (N + j)) = (\<Sum>j<N. points_in_ring (N - 1 - j))"
    by (rule sum.cong) (simp_all add: points_in_ring_mirror)
  also have "\<dots> = (\<Sum>j<N. points_in_ring (N - Suc j))"
    by simp
  also have "\<dots> = (\<Sum>j<N. points_in_ring j)"
    by (rule sum.nat_diff_reindex)
  finally show ?thesis
    by (simp add: sum_points_north)
qed

lemma sum_points_all: "(\<Sum>j<NUM_RINGS. points_in_ring j) = 4 * N * N + 36 * N"
proof -
  have "{..<NUM_RINGS} = {..<N} \<union> {N..<N + N}"
    by (auto simp: NUM_RINGS_def)
  moreover have "{..<N} \<inter> {N..<N + N} = {}"
    by auto
  ultimately have "(\<Sum>j<NUM_RINGS. points_in_ring j)
      = (\<Sum>j<N. points_in_ring j) + (\<Sum>j=N..<N + N. points_in_ring j)"
    by (simp add: sum.union_disjoint)
  also have "(\<Sum>j=N..<N + N. points_in_ring j) = (\<Sum>j<N. points_in_ring (N + j))"
    using sum.shift_bounds_nat_ivl [of points_in_ring 0 N N]
    by (simp add: lessThan_atLeast0 add.commute)
  finally show ?thesis
    by (simp add: sum_points_north sum_points_south)
qed

lemma total_points: "(\<Sum>j<NUM_RINGS. points_in_ring j) = 6599680"
  by (simp add: sum_points_all N_def)

lemma offsets_step_pair:
  "offsets_step (offs, c) i = (offs[i := of_nat c], c + points_in_ring i)"
  by (simp add: offsets_step_def)

text \<open>Loop invariant of \<open>generate_ring_offsets\<close> after the first \<open>k\<close> iterations.\<close>

lemma offsets_loop:
  "k \<le> NUM_RINGS \<Longrightarrow>
   foldl offsets_step (replicate NUM_RINGS 0, 0) [0..<k] = (offs, c) \<Longrightarrow>
   length offs = NUM_RINGS \<and> c = (\<Sum>j<k. points_in_ring j) \<and>
   (\<forall>i<k. offs ! i = of_nat (\<Sum>j<i. points_in_ring j))"
proof (induction k arbitrary: offs c)
  case 0
  then show ?case by auto
next
  case (Suc k)
  obtain offs0 c0 where prev:
    "foldl offsets_step (replicate NUM_RINGS 0, 0) [0..<k] = (offs0, c0)"
    by (cases "foldl offsets_step (replicate NUM_RINGS 0, 0) [0..<k]")
  from Suc.prems have k: "k \<le> NUM_RINGS" "k < NUM_RINGS" by simp_all
  from Suc.IH [OF k(1) prev] have ih:
    "length offs0 = NUM_RINGS" "c0 = (\<Sum>j<k. points_in_ring j)"
    "\<forall>i<k. offs0 ! i = of_nat (\<Sum>j<i. points_in_ring j)"
    by simp_all
  have "foldl offsets_step (replicate NUM_RINGS 0, 0) [0..<Suc k] = offsets_step (offs0, c0) k"
    by (simp add: prev)
  with Suc.prems(2) have "offsets_step (offs0, c0) k = (offs, c)"
    by simp
  then have step: "offs = offs0[k := of_nat c0]" "c = c0 + points_in_ring k"
    by (simp_all add: offsets_step_pair)
  have "\<forall>i<Suc k. offs ! i = of_nat (\<Sum>j<i. points_in_ring j)"
  proof (intro allI impI)
    fix i assume "i < Suc k"
    then show "offs ! i = of_nat (\<Sum>j<i. points_in_ring j)"
      using ih k step by (cases "i = k") (simp_all add: nth_list_update)
  qed
  with ih step show ?case by simp
qed

lemma length_generate_ring_offsets: "length generate_ring_offsets = NUM_RINGS"
proof -
  obtain offs c where r: "foldl offsets_step (replicate NUM_RINGS 0, 0) [0..<NUM_RINGS] = (offs, c)"
    by (cases "foldl offsets_step (replicate NUM_RINGS 0, 0) [0..<NUM_RINGS]")
  from offsets_loop [OF le_refl r] show ?thesis
    by (simp add: generate_ring_offsets_def r)
qed

lemma sum_points_mono: "i \<le> k \<Longrightarrow> (\<Sum>j<i. points_in_ring j) \<le> (\<Sum>j<k. points_in_ring j)"
  by (rule sum_mono2) auto

lemma sum_points_prefix_bound:
  "i < NUM_RINGS \<Longrightarrow> (\<Sum>j<i. points_in_ring j) + points_in_ring i \<le> 6599680"
proof -
  assume "i < NUM_RINGS"
  then have "(\<Sum>j<Suc i. points_in_ring j) \<le> (\<Sum>j<NUM_RINGS. points_in_ring j)"
    by (intro sum_points_mono) simp
  then show ?thesis by (simp add: total_points)
qed

lemma generate_ring_offsets_nth:
  assumes "i < NUM_RINGS"
  shows "unat (generate_ring_offsets ! i) = (\<Sum>j<i. points_in_ring j)"
proof -
  obtain offs c where r: "foldl offsets_step (replicate NUM_RINGS 0, 0) [0..<NUM_RINGS] = (offs, c)"
    by (cases "foldl offsets_step (replicate NUM_RINGS 0, 0) [0..<NUM_RINGS]")
  define S where "S = (\<Sum>j<i. points_in_ring j)"
  from offsets_loop [OF le_refl r] assms
  have "generate_ring_offsets ! i = of_nat S"
    unfolding S_def generate_ring_offsets_def r by simp
  moreover have "S < 2 ^ 32"
    using sum_points_prefix_bound [OF assms] by (simp add: S_def)
  ultimately have "unat (generate_ring_offsets ! i) = S"
    by (simp add: unat_of_nat)
  then show ?thesis by (simp add: S_def)
qed

text \<open>
  Claim C2. With \<open>N = 1280\<close> the table built by \<open>generate_ring_offsets\<close> has one entry per
  ring, every entry is the sum of the point counts of the rings before it (so entry 0 is 0),
  and the point counts of all 2560 rings add up to 6,599,680, which is also the last offset
  plus the last ring's point count.
\<close>

theorem ring_offsets_prefix_sum:
  "N = 1280 \<and> NUM_RINGS = 2560 \<and>
   length generate_ring_offsets = NUM_RINGS \<and>
   (\<forall>i<NUM_RINGS. unat (generate_ring_offsets ! i) = (\<Sum>j<i. points_in_ring j)) \<and>
   unat (generate_ring_offsets ! 0) = 0 \<and>
   (\<forall>i. points_in_ring i = 4 * (if i < N then i + 1 else NUM_RINGS - i) + 16) \<and>
   (\<Sum>j<NUM_RINGS. points_in_ring j) = 6599680 \<and>
   unat (generate_ring_offsets ! (NUM_RINGS - 1)) + points_in_ring (NUM_RINGS - 1) = 6599680"
proof -
  have last: "NUM_RINGS - 1 < NUM_RINGS" "0 < NUM_RINGS"
    by (simp_all add: NUM_RINGS_def N_def)
  have "Suc (NUM_RINGS - 1) = NUM_RINGS"
    using last by simp
  then have "(\<Sum>j<Suc (NUM_RINGS - 1). points_in_ring j) = 6599680"
    by (simp only: total_points)
  then have c8: "unat (generate_ring_offsets ! (NUM_RINGS - 1)) + points_in_ring (NUM_RINGS - 1) = 6599680"
    using generate_ring_offsets_nth [OF last(1)] by simp
  have c5: "unat (generate_ring_offsets ! 0) = 0"
    by (simp add: generate_ring_offsets_nth [OF last(2)])
  have c1: "N = 1280" and c2: "NUM_RINGS = 2560"
    by (simp_all add: N_def NUM_RINGS_def)
  have c4: "\<forall>i<NUM_RINGS. unat (generate_ring_offsets ! i) = (\<Sum>j<i. points_in_ring j)"
    by (simp add: generate_ring_offsets_nth)
  have c6: "\<forall>i. points_in_ring i = 4 * (if i < N then i + 1 else NUM_RINGS - i) + 16"
    by (simp add: points_in_ring_def ring_from_pole_def)
  from c1 c2 length_generate_ring_offsets c4 c5 c6 total_points c8 show ?thesis
    by blast
qed

theorem ring_offsets_prefix_sum_witness:
  "unat (generate_ring_offsets ! 2) = 44 \<and> unat (generate_ring_offsets ! 2559) = 6599660"
proof -
  have a: "(2::nat) < NUM_RINGS" "NUM_RINGS - 1 = 2559"
    by (simp_all add: NUM_RINGS_def N_def)
  have p: "points_in_ring 0 = 20" "points_in_ring 1 = 24" "points_in_ring 2559 = 20"
    by (simp_all add: points_in_ring_def ring_from_pole_def NUM_RINGS_def N_def)
  from ring_offsets_prefix_sum a(1)
  have "unat (generate_ring_offsets ! 2) = (\<Sum>j<2. points_in_ring j)"
    by blast
  also have "\<dots> = 44"
    using p by (simp add: numeral_2_eq_2)
  finally have w1: "unat (generate_ring_offsets ! 2) = 44" .
  from ring_offsets_prefix_sum
  have "unat (generate_ring_offsets ! (NUM_RINGS - 1)) + points_in_ring (NUM_RINGS - 1) = 6599680"
    by blast
  then have w2: "unat (generate_ring_offsets ! 2559) = 6599660"
    unfolding a(2) p(3) by simp
  from w1 w2 show ?thesis by blast
qed

section \<open>The latitude table and the ring search\<close>

lemma lats_loop:
  "k \<le> NUM_RINGS \<Longrightarrow>
   length (foldl lats_step (replicate NUM_RINGS 0) [0..<k]) = NUM_RINGS \<and>
   (\<forall>i<k. foldl lats_step (replicate NUM_RINGS 0) [0..<k] ! i
      = radians (90 - (real i + 0.5) * 180 / real NUM_RINGS))"
proof (induction k)
  case 0
  show ?case by simp
next
  case (Suc k)
  then have ih: "length (foldl lats_step (replicate NUM_RINGS 0) [0..<k]) = NUM_RINGS"
    "\<forall>i<k. foldl lats_step (replicate NUM_RINGS 0) [0..<k] ! i
      = radians (90 - (real i + 0.5) * 180 / real NUM_RINGS)"
    and k: "k < NUM_RINGS"
    by simp_all
  have step: "foldl lats_step (replicate NUM_RINGS 0) [0..<Suc k]
      = (foldl lats_step (replicate NUM_RINGS 0) [0..<k])
          [k := radians (90 - (real k + 0.5) * 180 / real NUM_RINGS)]"
    by (simp add: lats_step_def)
  show ?case
    unfolding step using ih k by (auto simp: nth_list_update)
qed

lemma length_generate_gaussian_lats: "length generate_gaussian_lats = NUM_RINGS"
  using lats_loop [OF le_refl] by (simp add: generate_gaussian_lats_def)

lemma generate_gaussian_lats_nth:
  "i < NUM_RINGS \<Longrightarrow>
   generate_gaussian_lats ! i = radians (90 - (real i + 0.5) * 180 / real NUM_RINGS)"
  using lats_loop [OF le_refl] by (simp add: generate_gaussian_lats_def)

lemma NUM_RINGS_pos: "0 < NUM_RINGS"
  by (simp add: NUM_RINGS_def N_def)

lemma radians_strict_mono: "a < b \<Longrightarrow> radians a < radians b"
  by (simp add: radians_def)

lemma lats_decreasing:
  assumes "i < j" "j < NUM_RINGS"
  shows "generate_gaussian_lats ! j < generate_gaussian_lats ! i"
proof -
  have "(real i + 0.5) * 180 / real NUM_RINGS < (real j + 0.5) * 180 / real NUM_RINGS"
    using assms NUM_RINGS_pos by (simp add: divide_strict_right_mono)
  then have "radians (90 - (real j + 0.5) * 180 / real NUM_RINGS)
      < radians (90 - (real i + 0.5) * 180 / real NUM_RINGS)"
    by (intro radians_strict_mono) simp
  with assms show ?thesis
    by (simp add: generate_gaussian_lats_nth)
qed

text \<open>What the binary search returns on an ascending array.\<close>

lemma bsearch_left_spec:
  "\<lbrakk>\<forall>i j. i \<le> j \<and> j < length a \<longrightarrow> a ! i \<le> a ! j; lo \<le> hi; hi \<le> length a;
    \<forall>j<lo. a ! j < v; \<forall>j. hi \<le> j \<and> j < length a \<longrightarrow> v \<le> a ! j\<rbrakk>
   \<Longrightarrow> bsearch_left a v lo hi \<le> length a \<and>
       (\<forall>j<bsearch_left a v lo hi. a ! j < v) \<and>
       (\<forall>j. bsearch_left a v lo hi \<le> j \<and> j < length a \<longrightarrow> v \<le> a ! j)"
proof (induction a v lo hi rule: bsearch_left.induct)
  case (1 a v lo hi)
  let ?mid = "lo + (hi - lo) div 2"
  show ?case
  proof (cases "lo < hi")
    case False
    with "1.prems" have "lo = hi" by simp
    with "1.prems" False show ?thesis
      by (subst (1 2 3) bsearch_left.simps) simp
  next
    case True
    then have mid: "lo \<le> ?mid" "?mid < hi" by simp_all
    show ?thesis
    proof (cases "a ! ?mid < v")
      case less: True
      have below: "\<forall>j<?mid + 1. a ! j < v"
      proof (intro allI impI)
        fix j assume "j < ?mid + 1"
        then have "j \<le> ?mid" by simp
        with mid "1.prems"(1,3) have "a ! j \<le> a ! ?mid" by simp
        with less show "a ! j < v" by simp
      qed
      have eq: "bsearch_left a v lo hi = bsearch_left a v (?mid + 1) hi"
        using True less by (subst bsearch_left.simps) simp
      from "1.IH"(1) [OF True less "1.prems"(1) _ "1.prems"(3) below "1.prems"(5)] mid
      show ?thesis unfolding eq by simp
    next
      case geq: False
      have above: "\<forall>j. ?mid \<le> j \<and> j < length a \<longrightarrow> v \<le> a ! j"
      proof (intro allI impI)
        fix j assume "?mid \<le> j \<and> j < length a"
        with "1.prems"(1) have "a ! ?mid \<le> a ! j" by simp
        with geq show "v \<le> a ! j" by simp
      qed
      have eq: "bsearch_left a v lo hi = bsearch_left a v lo ?mid"
        using True geq by (subst bsearch_left.simps) simp
      from mid "1.prems"(3) have "?mid \<le> length a" by simp
      from "1.IH"(2) [OF True geq "1.prems"(1) mid(1) this "1.prems"(4) above]
      show ?thesis unfolding eq by simp
    qed
  qed
qed

lemma neg_lats_ascending:
  "\<forall>i j. i \<le> j \<and> j < length (map uminus generate_gaussian_lats)
     \<longrightarrow> map uminus generate_gaussian_lats ! i \<le> map uminus generate_gaussian_lats ! j"
proof (intro allI impI)
  fix i j
  assume a: "i \<le> j \<and> j < length (map uminus generate_gaussian_lats)"
  then have j: "j < NUM_RINGS" and i: "i < NUM_RINGS"
    by (simp_all add: length_generate_gaussian_lats)
  show "map uminus generate_gaussian_lats ! i \<le> map uminus generate_gaussian_lats ! j"
  proof (cases "i = j")
    case True
    then show ?thesis by simp
  next
    case False
    with a have "i < j" by simp
    from lats_decreasing [OF this j] i j show ?thesis
      by (simp add: length_generate_gaussian_lats)
  qed
qed

text \<open>
  \<open>find_ring\<close> on the generated table: every ring before the result lies strictly north of
  the query, every ring from the result on lies at or south of it.
\<close>

lemma find_ring_spec:
  "find_ring lat generate_gaussian_lats \<le> NUM_RINGS \<and>
   (\<forall>j<find_ring lat generate_gaussian_lats. lat < generate_gaussian_lats ! j) \<and>
   (\<forall>j. find_ring lat generate_gaussian_lats \<le> j \<and> j < NUM_RINGS
      \<longrightarrow> generate_gaussian_lats ! j \<le> lat)"
proof -
  let ?a = "map uminus generate_gaussian_lats"
  let ?r = "bsearch_left ?a (- lat) 0 (length ?a)"
  have spec: "?r \<le> length ?a \<and> (\<forall>j<?r. ?a ! j < - lat) \<and>
      (\<forall>j. ?r \<le> j \<and> j < length ?a \<longrightarrow> - lat \<le> ?a ! j)"
    by (rule bsearch_left_spec [OF neg_lats_ascending]) simp_all
  have r: "find_ring lat generate_gaussian_lats = ?r"
    by (simp add: find_ring_def searchsorted_def)
  from spec have 1: "?r \<le> NUM_RINGS"
    by (simp add: length_generate_gaussian_lats)
  have 2: "\<forall>j<?r. lat < generate_gaussian_lats ! j"
  proof (intro allI impI)
    fix j assume j: "j < ?r"
    with 1 have "j < length generate_gaussian_lats"
      by (simp add: length_generate_gaussian_lats)
    moreover from spec j have "?a ! j < - lat" by blast
    ultimately show "lat < generate_gaussian_lats ! j" by simp
  qed
  have 3: "\<forall>j. ?r \<le> j \<and> j < NUM_RINGS \<longrightarrow> generate_gaussian_lats ! j \<le> lat"
  proof (intro allI impI)
    fix j assume j: "?r \<le> j \<and> j < NUM_RINGS"
    then have l: "j < length generate_gaussian_lats"
      by (simp add: length_generate_gaussian_lats)
    with spec j have "- lat \<le> ?a ! j" by simp
    with l show "generate_gaussian_lats ! j \<le> lat" by simp
  qed
  from 1 2 3 show ?thesis unfolding r by blast
qed

lemma lats_first_below_half_pi: "generate_gaussian_lats ! 0 < pi / 2"
proof -
  have "(90 - (0.5::real) * 180 / real NUM_RINGS) < 90"
    using NUM_RINGS_pos by simp
  then have "radians (90 - (real 0 + 0.5) * 180 / real NUM_RINGS) < radians 90"
    by (intro radians_strict_mono) simp
  then show ?thesis
    using NUM_RINGS_pos by (simp add: generate_gaussian_lats_nth radians_def)
qed

lemma lats_above_minus_half_pi:
  assumes "j < NUM_RINGS"
  shows "- (pi / 2) < generate_gaussian_lats ! j"
proof -
  have "real j + 0.5 < real NUM_RINGS"
    using assms by simp
  then have "(real j + 0.5) * 180 / real NUM_RINGS < 180"
    using NUM_RINGS_pos by (simp add: divide_less_eq)
  then have "radians (- 90) < radians (90 - (real j + 0.5) * 180 / real NUM_RINGS)"
    by (intro radians_strict_mono) simp
  then show ?thesis
    using assms by (simp add: generate_gaussian_lats_nth radians_def)
qed

text \<open>
  Claim C4. The latitude table has the values \<open>radians(90 - (i + 0.5) \<sqdot> 180 / numRings)\<close>, it is
  strictly decreasing in the ring index, and looking up a ring's own centre latitude
  returns that ring.
\<close>

theorem gaussian_lats_self_consistent:
  "length generate_gaussian_lats = NUM_RINGS \<and>
   (\<forall>i<NUM_RINGS. generate_gaussian_lats ! i
       = radians (90 - (real i + 0.5) * 180 / real NUM_RINGS)) \<and>
   (\<forall>i j. i < j \<and> j < NUM_RINGS
       \<longrightarrow> generate_gaussian_lats ! j < generate_gaussian_lats ! i) \<and>
   (\<forall>i<NUM_RINGS. find_ring (generate_gaussian_lats ! i) generate_gaussian_lats = i)"
proof -
  have self: "\<forall>i<NUM_RINGS. find_ring (generate_gaussian_lats ! i) generate_gaussian_lats = i"
  proof (intro allI impI)
    fix i assume i: "i < NUM_RINGS"
    let ?r = "find_ring (generate_gaussian_lats ! i) generate_gaussian_lats"
    from find_ring_spec [of "generate_gaussian_lats ! i"]
    have before: "\<forall>j<?r. generate_gaussian_lats ! i < generate_gaussian_lats ! j"
      and after: "\<forall>j. ?r \<le> j \<and> j < NUM_RINGS
          \<longrightarrow> generate_gaussian_lats ! j \<le> generate_gaussian_lats ! i"
      by blast+
    have "\<not> i < ?r"
      using before by auto
    moreover have "\<not> ?r < i"
    proof
      assume lt: "?r < i"
      with i after have "generate_gaussian_lats ! ?r \<le> generate_gaussian_lats ! i"
        by simp
      with lats_decreasing [OF lt i] show False by simp
    qed
    ultimately show "?r = i" by simp
  qed
  have "\<forall>i j. i < j \<and> j < NUM_RINGS
       \<longrightarrow> generate_gaussian_lats ! j < generate_gaussian_lats ! i"
    by (simp add: lats_decreasing)
  with self length_generate_gaussian_lats generate_gaussian_lats_nth show ?thesis
    by blast
qed

theorem gaussian_lats_self_consistent_witness:
  "find_ring (generate_gaussian_lats ! 7) generate_gaussian_lats = 7 \<and>
   generate_gaussian_lats ! 8 < generate_gaussian_lats ! 7"
proof -
  have a: "(7::nat) < NUM_RINGS" "(7::nat) < 8 \<and> (8::nat) < NUM_RINGS"
    by (simp_all add: NUM_RINGS_def N_def)
  from gaussian_lats_self_consistent a show ?thesis
    by blast
qed

text \<open>
  Claim C3. The ring that \<open>get_value\<close> takes from \<open>find_ring\<close> and clamps is at most
  \<open>numRings - 1\<close>. When some ring centre lies at or below the query it is the first such
  ring; otherwise it is the last ring. A query above \<open>\<pi>/2\<close> gives ring 0 and a query below
  \<open>-\<pi>/2\<close> gives ring \<open>numRings - 1\<close>.
\<close>

theorem locate_ring_first_below:
  "locate_ring lat generate_gaussian_lats \<le> NUM_RINGS - 1 \<and>
   locate_ring lat generate_gaussian_lats < length generate_gaussian_lats \<and>
   ((\<exists>i<NUM_RINGS. generate_gaussian_lats ! i \<le> lat) \<longrightarrow>
      locate_ring lat generate_gaussian_lats = find_ring lat generate_gaussian_lats \<and>
      generate_gaussian_lats ! locate_ring lat generate_gaussian_lats \<le> lat \<and>
      (\<forall>j<locate_ring lat generate_gaussian_lats. lat < generate_gaussian_lats ! j)) \<and>
   (\<not> (\<exists>i<NUM_RINGS. generate_gaussian_lats ! i \<le> lat) \<longrightarrow>
      locate_ring lat generate_gaussian_lats = NUM_RINGS - 1) \<and>
   (pi / 2 < lat \<longrightarrow> locate_ring lat generate_gaussian_lats = 0) \<and>
   (lat < - (pi / 2) \<longrightarrow> locate_ring lat generate_gaussian_lats = NUM_RINGS - 1)"
proof -
  let ?L = generate_gaussian_lats
  let ?r = "find_ring lat ?L"
  from find_ring_spec [of lat]
  have le: "?r \<le> NUM_RINGS"
    and before: "\<forall>j<?r. lat < ?L ! j"
    and after: "\<forall>j. ?r \<le> j \<and> j < NUM_RINGS \<longrightarrow> ?L ! j \<le> lat"
    by blast+
  have c1: "locate_ring lat ?L \<le> NUM_RINGS - 1"
    by (simp add: locate_ring_def)
  have c2: "locate_ring lat ?L < length ?L"
    using NUM_RINGS_pos by (simp add: locate_ring_def length_generate_gaussian_lats)
  have c3: "(\<exists>i<NUM_RINGS. ?L ! i \<le> lat) \<longrightarrow>
      locate_ring lat ?L = ?r \<and> ?L ! locate_ring lat ?L \<le> lat \<and>
      (\<forall>j<locate_ring lat ?L. lat < ?L ! j)"
  proof
    assume "\<exists>i<NUM_RINGS. ?L ! i \<le> lat"
    then obtain i where i: "i < NUM_RINGS" "?L ! i \<le> lat" by blast
    have "\<not> i < ?r" using before i(2) by auto
    with i(1) have lt: "?r < NUM_RINGS" by simp
    then have eq: "locate_ring lat ?L = ?r" by (simp add: locate_ring_def)
    from after lt have "?L ! ?r \<le> lat" by simp
    with eq before show "locate_ring lat ?L = ?r \<and> ?L ! locate_ring lat ?L \<le> lat \<and>
      (\<forall>j<locate_ring lat ?L. lat < ?L ! j)" by simp
  qed
  have c4: "\<not> (\<exists>i<NUM_RINGS. ?L ! i \<le> lat) \<longrightarrow> locate_ring lat ?L = NUM_RINGS - 1"
  proof
    assume none: "\<not> (\<exists>i<NUM_RINGS. ?L ! i \<le> lat)"
    have "\<not> ?r < NUM_RINGS"
    proof
      assume "?r < NUM_RINGS"
      with after have "?L ! ?r \<le> lat" by simp
      with \<open>?r < NUM_RINGS\<close> none show False by blast
    qed
    then show "locate_ring lat ?L = NUM_RINGS - 1"
      by (simp add: locate_ring_def)
  qed
  have c5: "pi / 2 < lat \<longrightarrow> locate_ring lat ?L = 0"
  proof
    assume "pi / 2 < lat"
    with lats_first_below_half_pi have "\<not> lat < ?L ! 0" by simp
    with before have "\<not> 0 < ?r" by blast
    then show "locate_ring lat ?L = 0" by (simp add: locate_ring_def)
  qed
  have c6: "lat < - (pi / 2) \<longrightarrow> locate_ring lat ?L = NUM_RINGS - 1"
  proof
    assume low: "lat < - (pi / 2)"
    have "\<not> (\<exists>i<NUM_RINGS. ?L ! i \<le> lat)"
    proof
      assume "\<exists>i<NUM_RINGS. ?L ! i \<le> lat"
      then obtain i where "i < NUM_RINGS" "?L ! i \<le> lat" by blast
      with lats_above_minus_half_pi [of i] low show False by simp
    qed
    with c4 show "locate_ring lat ?L = NUM_RINGS - 1" by blast
  qed
  from c1 c2 c3 c4 c5 c6 show ?thesis by blast
qed

theorem locate_ring_first_below_witness:
  "locate_ring 2 generate_gaussian_lats = 0 \<and>
   locate_ring (- 2) generate_gaussian_lats = NUM_RINGS - 1 \<and>
   locate_ring (generate_gaussian_lats ! 3) generate_gaussian_lats
     = find_ring (generate_gaussian_lats ! 3) generate_gaussian_lats"
proof -
  have up: "pi / 2 < 2"
    using pi_less_4 by simp
  then have down: "(- 2 :: real) < - (pi / 2)"
    by simp
  have "(3::nat) < NUM_RINGS"
    by (simp add: NUM_RINGS_def N_def)
  then have ex: "\<exists>i<NUM_RINGS. generate_gaussian_lats ! i \<le> generate_gaussian_lats ! 3"
    by blast
  from locate_ring_first_below [of 2] up
  have 1: "locate_ring 2 generate_gaussian_lats = 0" by blast
  from locate_ring_first_below [of "- 2"] down
  have 2: "locate_ring (- 2) generate_gaussian_lats = NUM_RINGS - 1" by blast
  from locate_ring_first_below [of "generate_gaussian_lats ! 3"] ex
  have 3: "locate_ring (generate_gaussian_lats ! 3) generate_gaussian_lats
     = find_ring (generate_gaussian_lats ! 3) generate_gaussian_lats" by blast
  from 1 2 3 show ?thesis by blast
qed

section \<open>The sampler\<close>

lemma ring_from_pole_bounds: "r < NUM_RINGS \<Longrightarrow> 1 \<le> ring_from_pole r \<and> ring_from_pole r \<le> N"
  by (auto simp: ring_from_pole_def NUM_RINGS_def)

lemma points_in_ring_bounds: "r < NUM_RINGS \<Longrightarrow> 20 \<le> points_in_ring r \<and> points_in_ring r \<le> 5136"
  using ring_from_pole_bounds [of r] by (simp add: points_in_ring_def N_def)


lemma locate_ring_less: "locate_ring lat lats < NUM_RINGS"
  unfolding locate_ring_def using NUM_RINGS_pos by arith

lemma DBL_MAX_lower: "10 ^ 308 < DBL_MAX"
  by (simp add: DBL_MAX_def)

lemma DBL_MAX_upper: "DBL_MAX < 2 * 10 ^ 308"
  by (simp add: DBL_MAX_def)

lemma lon_index_in_range:
  assumes "\<bar>lon_scaled lon n\<bar> \<le> DBL_MAX" "0 < n"
  shows "lon_index lon n = Inr (nat (trunc (lon_scaled lon n) mod int n))
       \<and> nat (trunc (lon_scaled lon n) mod int n) < n"
proof -
  from assms(1) have "py_int (lon_scaled lon n) = Inr (trunc (lon_scaled lon n))"
    by (simp add: py_int_def)
  then have "lon_index lon n = Inr (nat (trunc (lon_scaled lon n) mod int n))"
    by (simp add: lon_index_def)
  moreover from assms(2) have "trunc (lon_scaled lon n) mod int n < int n"
    by simp
  moreover from assms(2) have "0 \<le> trunc (lon_scaled lon n) mod int n"
    by simp
  ultimately show ?thesis by linarith
qed

lemma lon_index_overflow:
  assumes "DBL_MAX < \<bar>lon_scaled lon n\<bar>"
  shows "lon_index lon n = Inl OverflowError"
  using assms by (simp add: lon_index_def py_int_def)

lemma lon_index_cases:
  assumes "0 < n"
  shows "lon_index lon n = Inl OverflowError \<or> (\<exists>i<n. lon_index lon n = Inr i)"
proof (cases "DBL_MAX < \<bar>lon_scaled lon n\<bar>")
  case True
  then show ?thesis by (simp add: lon_index_overflow)
next
  case False
  then have "\<bar>lon_scaled lon n\<bar> \<le> DBL_MAX" by simp
  from lon_index_in_range [OF this assms] show ?thesis by blast
qed

lemma flat_index_bound:
  assumes "r < NUM_RINGS" "i < points_in_ring r"
  shows "unat (generate_ring_offsets ! r) + i < 6599680"
  using sum_points_prefix_bound [OF assms(1)] assms(2)
  by (simp add: generate_ring_offsets_nth [OF assms(1)])

lemma get_value_Inr:
  assumes "lon_index lon (points_in_ring (locate_ring lat lats)) = Inr i"
  shows "get_value lat lon data lats generate_ring_offsets =
     Inr (if unat (generate_ring_offsets ! locate_ring lat lats) + i < length data
          then data ! (unat (generate_ring_offsets ! locate_ring lat lats) + i) else 0)"
  using assms locate_ring_less [of lat lats]
  by (simp add: get_value_def Let_def length_generate_ring_offsets)

lemma get_value_Inl:
  assumes "lon_index lon (points_in_ring (locate_ring lat lats)) = Inl e"
  shows "get_value lat lon data lats offsets = Inl e"
  using assms by (simp add: get_value_def Let_def)

lemma lon_scaled_small:
  assumes "\<bar>lon\<bar> \<le> 10 ^ 300" "n \<le> 5136"
  shows "\<bar>lon_scaled lon n\<bar> \<le> DBL_MAX"
proof -
  define x where "x = (if lon \<ge> 0 then lon else lon + 2 * pi)"
  have pi8: "2 * pi \<le> 8" using pi_less_4 by simp
  have pi6: "4 \<le> 2 * pi" using pi_ge_two by simp
  have "\<bar>x\<bar> \<le> \<bar>lon\<bar> + 2 * pi"
    unfolding x_def using pi6 by (cases "lon \<ge> 0") auto
  with assms(1) pi8 have x: "\<bar>x\<bar> \<le> 10 ^ 300 + 8" by linarith
  have "\<bar>x / (2 * pi)\<bar> = \<bar>x\<bar> / (2 * pi)"
    using pi6 by (simp add: abs_divide)
  also have "\<dots> \<le> \<bar>x\<bar> / 4"
    using pi6 by (intro divide_left_mono) simp_all
  also have "\<dots> \<le> (10 ^ 300 + 8) / 4"
    using x by simp
  finally have q: "\<bar>x / (2 * pi)\<bar> \<le> (10 ^ 300 + 8) / 4" .
  have "\<bar>lon_scaled lon n\<bar> = \<bar>x / (2 * pi)\<bar> * real n"
    by (simp add: lon_scaled_def x_def Let_def abs_mult)
  also have "\<dots> \<le> (10 ^ 300 + 8) / 4 * 5136"
    using q assms(2) by (intro mult_mono) simp_all
  also have "\<dots> \<le> 10 ^ 308"
    by simp
  finally show ?thesis
    using DBL_MAX_lower by linarith
qed






lemma lon_scaled_huge:
  assumes "10 ^ 308 \<le> \<bar>lon\<bar>" "20 \<le> n"
  shows "DBL_MAX < \<bar>lon_scaled lon n\<bar>"
proof -
  define x where "x = (if lon \<ge> 0 then lon else lon + 2 * pi)"
  define B :: real where "B = 10 ^ 308"
  have B: "1000 \<le> B"
    by (simp add: B_def)
  have pi8: "2 * pi \<le> 8" "0 < 2 * pi"
    using pi_less_4 by simp_all
  have "B - 8 \<le> \<bar>x\<bar>"
    using assms(1) pi8 unfolding x_def B_def by (cases "lon \<ge> 0") auto
  then have "(B - 8) / 8 \<le> \<bar>x\<bar> / 8" by simp
  also have "\<dots> \<le> \<bar>x\<bar> / (2 * pi)"
    using pi8 by (intro divide_left_mono) simp_all
  finally have "(B - 8) / 8 * 20 \<le> \<bar>x\<bar> / (2 * pi) * real n"
    using assms(2) B by (intro mult_mono) simp_all
  moreover have "\<bar>lon_scaled lon n\<bar> = \<bar>x\<bar> / (2 * pi) * real n"
    by (simp add: lon_scaled_def x_def Let_def abs_mult)
  ultimately have "2 * B < \<bar>lon_scaled lon n\<bar>"
    using B by simp
  with DBL_MAX_upper show ?thesis
    unfolding B_def by linarith
qed

lemma get_value_overflow:
  assumes "10 ^ 308 \<le> \<bar>lon\<bar>"
  shows "get_value lat lon data lats offsets = Inl OverflowError"
proof -
  define n where "n = points_in_ring (locate_ring lat lats)"
  have n: "20 \<le> n"
    using points_in_ring_bounds [OF locate_ring_less] by (simp add: n_def)
  from lon_scaled_huge [OF assms n] have "lon_index lon n = Inl OverflowError"
    by (rule lon_index_overflow)
  then show ?thesis
    unfolding n_def by (rule get_value_Inl)
qed




text \<open>
  Claim C10, as written, fails for the same reason as C1: at the finite longitude \<open>-10\<^sup>3\<^sup>0\<^sup>8\<close>
  the sampler raises instead of returning a grid value, whatever the array.
\<close>

theorem get_value_full_array_raises:
  "length (replicate 6599680 (1 :: real)) = 6599680 \<and>
   \<bar>1 :: real\<bar> \<le> DBL_MAX \<and> \<bar>- (10 ^ 308) :: real\<bar> \<le> DBL_MAX \<and>
   get_value 1 (- (10 ^ 308)) (replicate 6599680 (1 :: real)) generate_gaussian_lats generate_ring_offsets
     = Inl OverflowError"
proof -
  have "get_value 1 (- (10 ^ 308)) (replicate 6599680 (1 :: real)) generate_gaussian_lats generate_ring_offsets
     = Inl OverflowError"
    by (rule get_value_overflow) simp
  moreover have "\<bar>- (10 ^ 308) :: real\<bar> \<le> DBL_MAX" "\<bar>1 :: real\<bar> \<le> DBL_MAX"
    using DBL_MAX_lower by simp_all
  ultimately show ?thesis by simp
qed

text \<open>
  Claim C10, amended. For a value array of 6,599,680 elements: the flat index of every ring
  and every point index reduced modulo the ring's point count is below 6,599,680; the
  sampler either raises \<open>OverflowError\<close> or returns the array element at such an index
  (never the sentinel); it returns whenever the scaled longitude stays within the
  double range, which every longitude of magnitude up to \<open>10\<^sup>3\<^sup>0\<^sup>0\<close> does; and it raises
  \<open>OverflowError\<close> whenever the scaled longitude leaves that range, which every longitude
  of magnitude \<open>10\<^sup>3\<^sup>0\<^sup>8\<close> or more does.
\<close>

theorem get_value_hits_grid_point:
  "length data = 6599680 \<longrightarrow>
   (\<forall>r<NUM_RINGS. \<forall>k :: int.
      unat (generate_ring_offsets ! r) + nat (k mod int (points_in_ring r)) < 6599680) \<and>
   (get_value lat lon data generate_gaussian_lats generate_ring_offsets = Inl OverflowError \<or>
    (\<exists>idx<6599680.
       get_value lat lon data generate_gaussian_lats generate_ring_offsets = Inr (data ! idx))) \<and>
   (\<bar>lon_scaled lon (points_in_ring (locate_ring lat generate_gaussian_lats))\<bar> \<le> DBL_MAX \<longrightarrow>
    (\<exists>i<points_in_ring (locate_ring lat generate_gaussian_lats).
       lon_index lon (points_in_ring (locate_ring lat generate_gaussian_lats)) = Inr i \<and>
       unat (generate_ring_offsets ! locate_ring lat generate_gaussian_lats) + i < 6599680 \<and>
       get_value lat lon data generate_gaussian_lats generate_ring_offsets =
         Inr (data ! (unat (generate_ring_offsets ! locate_ring lat generate_gaussian_lats) + i)))) \<and>
   (\<bar>lon\<bar> \<le> 10 ^ 300 \<longrightarrow>
      \<bar>lon_scaled lon (points_in_ring (locate_ring lat generate_gaussian_lats))\<bar> \<le> DBL_MAX) \<and>
   (DBL_MAX < \<bar>lon_scaled lon (points_in_ring (locate_ring lat generate_gaussian_lats))\<bar> \<longrightarrow>
      get_value lat lon data generate_gaussian_lats generate_ring_offsets = Inl OverflowError) \<and>
   (10 ^ 308 \<le> \<bar>lon\<bar> \<longrightarrow>
      DBL_MAX < \<bar>lon_scaled lon (points_in_ring (locate_ring lat generate_gaussian_lats))\<bar>)"
proof
  assume len: "length data = 6599680"
  let ?L = generate_gaussian_lats
  let ?r = "locate_ring lat ?L"
  let ?n = "points_in_ring ?r"
  have r: "?r < NUM_RINGS" by (rule locate_ring_less)
  have nb: "20 \<le> ?n \<and> ?n \<le> 5136"
    by (rule points_in_ring_bounds [OF r])
  then have npos: "0 < ?n" by simp
  have hit: "get_value lat lon data ?L generate_ring_offsets
        = Inr (data ! (unat (generate_ring_offsets ! ?r) + i))
      \<and> unat (generate_ring_offsets ! ?r) + i < 6599680"
    if "lon_index lon ?n = Inr i" "i < ?n" for i
    using get_value_Inr [OF that(1), of data] flat_index_bound [OF r that(2)] len by simp
  have c1: "\<forall>r<NUM_RINGS. \<forall>k :: int.
      unat (generate_ring_offsets ! r) + nat (k mod int (points_in_ring r)) < 6599680"
  proof (intro allI impI)
    fix r' :: nat and k :: int
    assume r': "r' < NUM_RINGS"
    from points_in_ring_bounds [OF r'] have "0 < int (points_in_ring r')" by simp
    then have "0 \<le> k mod int (points_in_ring r')" "k mod int (points_in_ring r') < int (points_in_ring r')"
      by simp_all
    then have "nat (k mod int (points_in_ring r')) < points_in_ring r'"
      by linarith
    from flat_index_bound [OF r' this]
    show "unat (generate_ring_offsets ! r') + nat (k mod int (points_in_ring r')) < 6599680" .
  qed
  have c2: "get_value lat lon data ?L generate_ring_offsets = Inl OverflowError \<or>
    (\<exists>idx<6599680. get_value lat lon data ?L generate_ring_offsets = Inr (data ! idx))"
    using lon_index_cases [OF npos, of lon] hit get_value_Inl by blast
  have c3: "\<bar>lon_scaled lon ?n\<bar> \<le> DBL_MAX \<longrightarrow>
    (\<exists>i<?n. lon_index lon ?n = Inr i \<and>
       unat (generate_ring_offsets ! ?r) + i < 6599680 \<and>
       get_value lat lon data ?L generate_ring_offsets =
         Inr (data ! (unat (generate_ring_offsets ! ?r) + i)))"
    using lon_index_in_range [OF _ npos, of lon] hit by blast
  have c4: "\<bar>lon\<bar> \<le> 10 ^ 300 \<longrightarrow> \<bar>lon_scaled lon ?n\<bar> \<le> DBL_MAX"
    using nb by (simp add: lon_scaled_small)
  have c5: "DBL_MAX < \<bar>lon_scaled lon ?n\<bar> \<longrightarrow>
      get_value lat lon data ?L generate_ring_offsets = Inl OverflowError"
    using lon_index_overflow get_value_Inl by blast
  have c6: "10 ^ 308 \<le> \<bar>lon\<bar> \<longrightarrow> DBL_MAX < \<bar>lon_scaled lon ?n\<bar>"
    using nb by (simp add: lon_scaled_huge)
  from c1 c2 c3 c4 c5 c6 show "(\<forall>r<NUM_RINGS. \<forall>k :: int.
      unat (generate_ring_offsets ! r) + nat (k mod int (points_in_ring r)) < 6599680) \<and>
   (get_value lat lon data ?L generate_ring_offsets = Inl OverflowError \<or>
    (\<exists>idx<6599680. get_value lat lon data ?L generate_ring_offsets = Inr (data ! idx))) \<and>
   (\<bar>lon_scaled lon ?n\<bar> \<le> DBL_MAX \<longrightarrow>
    (\<exists>i<?n. lon_index lon ?n = Inr i \<and>
       unat (generate_ring_offsets ! ?r) + i < 6599680 \<and>
       get_value lat lon data ?L generate_ring_offsets =
         Inr (data ! (unat (generate_ring_offsets ! ?r) + i)))) \<and>
   (\<bar>lon\<bar> \<le> 10 ^ 300 \<longrightarrow> \<bar>lon_scaled lon ?n\<bar> \<le> DBL_MAX) \<and>
   (DBL_MAX < \<bar>lon_scaled lon ?n\<bar> \<longrightarrow>
      get_value lat lon data ?L generate_ring_offsets = Inl OverflowError) \<and>
   (10 ^ 308 \<le> \<bar>lon\<bar> \<longrightarrow> DBL_MAX < \<bar>lon_scaled lon ?n\<bar>)"
    by blast
qed

theorem get_value_hits_grid_point_witness:
  "(\<exists>idx<6599680.
      get_value (1 / 2) 2 (replicate 6599680 (4 :: real)) generate_gaussian_lats generate_ring_offsets
        = Inr (replicate 6599680 4 ! idx)) \<and>
   unat (generate_ring_offsets ! 2559) + nat (- 7 mod int (points_in_ring 2559)) < 6599680 \<and>
   get_value (1 / 2) (10 ^ 308) (replicate 6599680 (4 :: real)) generate_gaussian_lats
     generate_ring_offsets = Inl OverflowError"
proof -
  have len: "length (replicate 6599680 (4 :: real)) = 6599680"
    by simp
  have huge: "10 ^ 308 \<le> \<bar>10 ^ 308 :: real\<bar>"
    by simp
  have small: "\<bar>2 :: real\<bar> \<le> 10 ^ 300"
    by simp
  have r: "(2559 :: nat) < NUM_RINGS"
    by (simp add: NUM_RINGS_def N_def)
  from get_value_hits_grid_point [of "replicate 6599680 4" "1 / 2" 2] len small
  have 1: "\<exists>idx<6599680.
      get_value (1 / 2) 2 (replicate 6599680 (4 :: real)) generate_gaussian_lats generate_ring_offsets
        = Inr (replicate 6599680 4 ! idx)"
    by blast
  from get_value_hits_grid_point [of "replicate 6599680 4" "1 / 2" 2] len r
  have 2: "unat (generate_ring_offsets ! 2559) + nat (- 7 mod int (points_in_ring 2559)) < 6599680"
    by blast
  from get_value_hits_grid_point [of "replicate 6599680 4" "1 / 2" "10 ^ 308"] len huge
  have 3: "get_value (1 / 2) (10 ^ 308) (replicate 6599680 (4 :: real)) generate_gaussian_lats
     generate_ring_offsets = Inl OverflowError"
    by blast
  from 1 2 3 show ?thesis by blast
qed

section \<open>The command line\<close>

lemma str_replace_no_match:
  assumes "old \<noteq> []" "s \<noteq> []" "take (length old) s \<noteq> old"
  shows "str_replace old new s = hd s # str_replace old new (tl s)"
  using assms by (subst str_replace.simps) simp

lemma str_replace_match:
  assumes "old \<noteq> []" "s \<noteq> []" "take (length old) s = old"
  shows "str_replace old new s = new @ str_replace old new (drop (length old) s)"
  using assms by (subst str_replace.simps) simp

lemma str_replace_empty: "old \<noteq> [] \<Longrightarrow> str_replace old new [] = []"
  by (subst str_replace.simps) simp

lemma str_replace_only_suffix:
  "\<forall>k<length stem. take 4 (drop k (stem @ ''.bin'')) \<noteq> ''.bin'' \<Longrightarrow>
   str_replace ''.bin'' ''.png'' (stem @ ''.bin'') = stem @ ''.png''"
proof (induction stem)
  case Nil
  have "str_replace ''.bin'' ''.png'' ''.bin''
      = ''.png'' @ str_replace ''.bin'' ''.png'' (drop (length ''.bin'') ''.bin'')"
    by (rule str_replace_match) simp_all
  then show ?case
    by (simp add: str_replace_empty)
next
  case (Cons c cs)
  from Cons.prems have "take 4 (drop 0 ((c # cs) @ ''.bin'')) \<noteq> ''.bin''"
    by blast
  then have t4: "take 4 ((c # cs) @ ''.bin'') \<noteq> ''.bin''"
    by (simp only: drop_0 not_False_eq_True)
  have len4: "length ''.bin'' = 4"
    by simp
  have nomatch: "take (length ''.bin'') ((c # cs) @ ''.bin'') \<noteq> ''.bin''"
    unfolding len4 by (rule t4)
  have rest: "\<forall>k<length cs. take 4 (drop k (cs @ ''.bin'')) \<noteq> ''.bin''"
  proof (intro allI impI)
    fix k assume "k < length cs"
    then have "Suc k < length (c # cs)" by simp
    with Cons.prems have "take 4 (drop (Suc k) ((c # cs) @ ''.bin'')) \<noteq> ''.bin''"
      by blast
    then show "take 4 (drop k (cs @ ''.bin'')) \<noteq> ''.bin''" by simp
  qed
  have "str_replace ''.bin'' ''.png'' ((c # cs) @ ''.bin'')
      = hd ((c # cs) @ ''.bin'') # str_replace ''.bin'' ''.png'' (tl ((c # cs) @ ''.bin''))"
    using nomatch by (intro str_replace_no_match) simp_all
  also have "\<dots> = c # str_replace ''.bin'' ''.png'' (cs @ ''.bin'')"
    by simp
  finally show ?case
    using Cons.IH [OF rest] by simp
qed

text \<open>
  Claim C9, as written, fails twice: the usage message goes to standard output, not to
  standard error, and \<open>replace\<close> rewrites every \<open>.bin\<close> in the path, not only the suffix.
\<close>

theorem main_args_usage_on_stdout:
  "main_args usage_gray [''temp-to-png.py'']
     = Exit [(Stdout, ''Usage: python temp-to-png.py <input.bin> [output.png]'')] 1 \<and>
   Stdout \<noteq> Stderr \<and>
   main_args usage_gray [''temp-to-png.py'', ''a.bin/t.bin''] = Run ''a.bin/t.bin'' ''a.png/t.png'' \<and>
   ''a.png/t.png'' \<noteq> ''a.bin/t.png''"
proof -
  have 1: "main_args usage_gray [''temp-to-png.py'']
     = Exit [(Stdout, ''Usage: python temp-to-png.py <input.bin> [output.png]'')] 1"
    by (simp add: main_args_def usage_gray_def)
  have a: "str_replace ''.bin'' ''.png'' ''a.bin/t.bin''
      = CHR ''a'' # str_replace ''.bin'' ''.png'' ''.bin/t.bin''"
    by (subst str_replace.simps) simp
  have b: "str_replace ''.bin'' ''.png'' ''.bin/t.bin''
      = ''.png'' @ str_replace ''.bin'' ''.png'' ''/t.bin''"
    by (subst str_replace.simps) simp
  have c: "str_replace ''.bin'' ''.png'' ''/t.bin''
      = CHR ''/'' # str_replace ''.bin'' ''.png'' ''t.bin''"
    by (subst str_replace.simps) simp
  have d: "str_replace ''.bin'' ''.png'' ''t.bin'' = ''t.png''"
    using str_replace_only_suffix [of "''t''"] by (simp add: less_Suc_eq)
  have "str_replace ''.bin'' ''.png'' ''a.bin/t.bin'' = ''a.png/t.png''"
    by (simp add: a b c d)
  then have 2: "main_args usage_gray [''temp-to-png.py'', ''a.bin/t.bin'']
      = Run ''a.bin/t.bin'' ''a.png/t.png''"
    by (simp add: main_args_def)
  from 1 2 show ?thesis by simp
qed

text \<open>
  Claim C9, amended. Called with no input path, \<open>main\<close> prints the usage message to standard
  output and exits with status 1. Called with an input path and no output path, where the
  input path ends in \<open>.bin\<close> and contains \<open>.bin\<close> nowhere else, the output path is the input
  path with that suffix replaced by \<open>.png\<close>; a given output path is taken as it is.
\<close>

theorem main_args_cli:
  "(length argv < 2 \<longrightarrow> main_args usage argv = Exit [(Stdout, usage)] 1) \<and>
   (length argv = 2 \<and> argv ! 1 = stem @ ''.bin'' \<and>
    (\<forall>k<length stem. take 4 (drop k (stem @ ''.bin'')) \<noteq> ''.bin'') \<longrightarrow>
      main_args usage argv = Run (stem @ ''.bin'') (stem @ ''.png'')) \<and>
   (length argv > 2 \<longrightarrow> main_args usage argv = Run (argv ! 1) (argv ! 2))"
proof -
  have 1: "length argv < 2 \<longrightarrow> main_args usage argv = Exit [(Stdout, usage)] 1"
    by (simp add: main_args_def)
  have 2: "length argv = 2 \<and> argv ! 1 = stem @ ''.bin'' \<and>
    (\<forall>k<length stem. take 4 (drop k (stem @ ''.bin'')) \<noteq> ''.bin'') \<longrightarrow>
      main_args usage argv = Run (stem @ ''.bin'') (stem @ ''.png'')"
  proof
    assume a: "length argv = 2 \<and> argv ! 1 = stem @ ''.bin'' \<and>
      (\<forall>k<length stem. take 4 (drop k (stem @ ''.bin'')) \<noteq> ''.bin'')"
    then have "str_replace ''.bin'' ''.png'' (stem @ ''.bin'') = stem @ ''.png''"
      by (intro str_replace_only_suffix) blast
    with a show "main_args usage argv = Run (stem @ ''.bin'') (stem @ ''.png'')"
      by (simp add: main_args_def)
  qed
  have 3: "length argv > 2 \<longrightarrow> main_args usage argv = Run (argv ! 1) (argv ! 2)"
    by (simp add: main_args_def)
  from 1 2 3 show ?thesis by blast
qed

theorem main_args_cli_witness:
  "main_args usage_hue [] = Exit [(Stdout, usage_hue)] 1 \<and>
   main_args usage_hue [''temp-to-png.py'', ''t2m.bin''] = Run ''t2m.bin'' ''t2m.png'' \<and>
   main_args usage_hue [''temp-to-png.py'', ''t2m.bin'', ''out.png''] = Run ''t2m.bin'' ''out.png''"
proof -
  have h1: "length ([] :: string list) < 2"
    by simp
  have h2: "length [''temp-to-png.py'', ''t2m.bin''] = 2 \<and>
      [''temp-to-png.py'', ''t2m.bin''] ! 1 = ''t2m'' @ ''.bin'' \<and>
      (\<forall>k<length ''t2m''. take 4 (drop k (''t2m'' @ ''.bin'')) \<noteq> ''.bin'')"
    by (simp add: less_Suc_eq numeral_3_eq_3)
  have h3: "length [''temp-to-png.py'', ''t2m.bin'', ''out.png''] > 2"
    by simp
  from main_args_cli [of "[]" usage_hue] h1
  have 1: "main_args usage_hue [] = Exit [(Stdout, usage_hue)] 1"
    by blast
  from main_args_cli [of "[''temp-to-png.py'', ''t2m.bin'']" usage_hue "''t2m''"] h2
  have 2: "main_args usage_hue [''temp-to-png.py'', ''t2m.bin''] = Run ''t2m.bin'' ''t2m.png''"
    by simp
  from main_args_cli [of "[''temp-to-png.py'', ''t2m.bin'', ''out.png'']" usage_hue] h3
  have 3: "main_args usage_hue [''temp-to-png.py'', ''t2m.bin'', ''out.png'']
      = Run ''t2m.bin'' ''out.png''"
    by simp
  from 1 2 3 show ?thesis by blast
qed

section \<open>Reprojection of a uniform field\<close>

lemma pixel_lon_small:
  assumes "x < WIDTH"
  shows "\<bar>pixel_lon x\<bar> \<le> 10 ^ 300"
proof -
  define q where "q = real x / real WIDTH"
  have q: "0 \<le> q" "q \<le> 1"
    using assms by (simp_all add: q_def WIDTH_def)
  have "q * (2 * pi) \<le> 1 * (2 * pi)"
    using q(2) by (rule mult_right_mono) simp
  moreover have "0 \<le> q * (2 * pi)"
    using q(1) by simp
  moreover have "pixel_lon x = q * (2 * pi) - pi"
    by (simp add: pixel_lon_def q_def)
  ultimately have "\<bar>pixel_lon x\<bar> \<le> pi"
    by (simp add: abs_le_iff)
  also have "pi \<le> 10 ^ 300"
    using pi_less_4 by simp
  finally show ?thesis .
qed

lemma sample_uniform:
  assumes "length data = 6599680" "\<forall>v\<in>set data. v = c" "\<bar>lon\<bar> \<le> 10 ^ 300"
  shows "get_value lat lon data generate_gaussian_lats generate_ring_offsets = Inr c"
proof -
  let ?r = "locate_ring lat generate_gaussian_lats"
  let ?n = "points_in_ring ?r"
  have r: "?r < NUM_RINGS" by (rule locate_ring_less)
  from points_in_ring_bounds [OF r] have nb: "0 < ?n" "?n \<le> 5136"
    by simp_all
  from lon_scaled_small [OF assms(3) nb(2)] have "\<bar>lon_scaled lon ?n\<bar> \<le> DBL_MAX" .
  from lon_index_in_range [OF this nb(1)]
  obtain i where i: "lon_index lon ?n = Inr i" "i < ?n"
    by blast
  let ?idx = "unat (generate_ring_offsets ! ?r) + i"
  from flat_index_bound [OF r i(2)] assms(1) have idx: "?idx < length data"
    by simp
  then have "data ! ?idx \<in> set data"
    by (rule nth_mem)
  with assms(2) have "data ! ?idx = c"
    by blast
  with get_value_Inr [OF i(1), of data] idx show ?thesis
    by simp
qed

lemma collect_map_const:
  "\<forall>x\<in>set xs. f x = Inr c \<Longrightarrow> collect (map f xs) = Inr (replicate (length xs) c)"
  by (induction xs) simp_all

lemma first_pass_uniform:
  assumes "length data = 6599680" "\<forall>v\<in>set data. v = c"
  shows "first_pass data = Inr (replicate HEIGHT (replicate WIDTH c))"
proof -
  have row: "collect (map (\<lambda>x. get_value (pixel_lat y) (pixel_lon x) data
        generate_gaussian_lats generate_ring_offsets) [0..<WIDTH]) = Inr (replicate WIDTH c)" for y
  proof -
    have "\<forall>x\<in>set [0..<WIDTH]. get_value (pixel_lat y) (pixel_lon x) data
        generate_gaussian_lats generate_ring_offsets = Inr c"
      using sample_uniform [OF assms] pixel_lon_small by simp
    from collect_map_const [OF this] show ?thesis by simp
  qed
  have "\<forall>y\<in>set [0..<HEIGHT]. collect (map (\<lambda>x. get_value (pixel_lat y) (pixel_lon x) data
        generate_gaussian_lats generate_ring_offsets) [0..<WIDTH]) = Inr (replicate WIDTH c)"
    by (simp add: row)
  from collect_map_const [OF this] show ?thesis
    by (simp add: first_pass_def)
qed

lemma trunc_numeral [simp]: "trunc 0 = 0" "trunc 255 = 255"
  by (simp_all add: trunc_def)

lemma temp_to_rgb_55: "temp_to_rgb 55 = (255, 0, 0)"
  by (simp add: temp_to_rgb_def)

text \<open>
  Claim C5. With \<open>N = 1280\<close> and an array of 6,599,680 values all equal to 55, hue-mode
  rendering at 1024 by 512 returns an image (no pixel raises) in which every pixel is
  \<open>(255, 0, 0)\<close>, the colour of \<open>t = clamp((55 + 50) / 100, 0, 1) = 1\<close>.
\<close>

theorem render_hue_uniform_55:
  "N = 1280 \<and> WIDTH = 1024 \<and> HEIGHT = 512 \<and>
   max 0 (min 1 ((55 + 50) / 100)) = (1 :: real) \<and>
   temp_to_rgb 55 = (255, 0, 0) \<and>
   render_hue (replicate 6599680 55) = Inr (replicate HEIGHT (replicate WIDTH (255, 0, 0)))"
proof -
  let ?data = "replicate 6599680 (55 :: real)"
  have len: "length ?data = 6599680" and all: "\<forall>v\<in>set ?data. v = 55"
    by simp_all
  have px: "(case get_temp (pixel_lat y) (pixel_lon x) ?data generate_gaussian_lats
        generate_ring_offsets of Inl e \<Rightarrow> Inl e | Inr temp \<Rightarrow> Inr (temp_to_rgb temp))
      = Inr (255, 0, 0)" if "x < WIDTH" for x y
    using sample_uniform [OF len all pixel_lon_small [OF that], of "pixel_lat y"]
    by (simp add: get_temp_def temp_to_rgb_55)
  have row: "collect (map (\<lambda>x. case get_temp (pixel_lat y) (pixel_lon x) ?data
        generate_gaussian_lats generate_ring_offsets of
          Inl e \<Rightarrow> Inl e | Inr temp \<Rightarrow> Inr (temp_to_rgb temp)) [0..<WIDTH])
      = Inr (replicate WIDTH (255, 0, 0))" for y
  proof -
    have "\<forall>x\<in>set [0..<WIDTH]. (case get_temp (pixel_lat y) (pixel_lon x) ?data
        generate_gaussian_lats generate_ring_offsets of
          Inl e \<Rightarrow> Inl e | Inr temp \<Rightarrow> Inr (temp_to_rgb temp)) = Inr (255, 0, 0)"
      using px by simp
    from collect_map_const [OF this] show ?thesis by simp
  qed
  have "\<forall>y\<in>set [0..<HEIGHT]. collect (map (\<lambda>x. case get_temp (pixel_lat y) (pixel_lon x) ?data
        generate_gaussian_lats generate_ring_offsets of
          Inl e \<Rightarrow> Inl e | Inr temp \<Rightarrow> Inr (temp_to_rgb temp)) [0..<WIDTH])
      = Inr (replicate WIDTH (255, 0, 0))"
    by (simp add: row)
  from collect_map_const [OF this]
  have img: "render_hue ?data = Inr (replicate HEIGHT (replicate WIDTH (255, 0, 0)))"
    by (simp add: render_hue_def)
  have "max 0 (min 1 ((55 + 50) / 100)) = (1 :: real)"
    by simp
  with img temp_to_rgb_55 show ?thesis
    by (simp add: N_def WIDTH_def HEIGHT_def)
qed

lemma collect_map_Inr:
  "\<forall>x\<in>set xs. f x = Inr (g x) \<Longrightarrow> collect (map f xs) = Inr (map g xs)"
  by (induction xs) simp_all

lemma collect_replicate_Inl:
  "0 < n \<Longrightarrow> f x = Inl e \<Longrightarrow> collect (map f (replicate n x)) = Inl e"
  by (cases n) simp_all

lemma fl_min2_same: "fl_min2 v v = v"
  by (cases v) (simp_all add: fl_min2_def)

lemma fl_max2_same: "fl_max2 v v = v"
  by (cases v) (simp_all add: fl_max2_def)

lemma foldl_fl_min2_const: "\<forall>x\<in>set xs. x = v \<Longrightarrow> foldl fl_min2 v xs = v"
  by (induction xs) (simp_all add: fl_min2_same)

lemma foldl_fl_max2_const: "\<forall>x\<in>set xs. x = v \<Longrightarrow> foldl fl_max2 v xs = v"
  by (induction xs) (simp_all add: fl_max2_same)

lemma np_min_max_const:
  assumes "xs \<noteq> []" "\<forall>x\<in>set xs. x = v"
  shows "np_min xs = Inr v \<and> np_max xs = Inr v"
proof -
  from assms(1) obtain y ys where xs: "xs = y # ys"
    by (cases xs) auto
  with assms(2) have "y = v" "\<forall>x\<in>set ys. x = v"
    by simp_all
  then show ?thesis
    by (simp add: xs foldl_fl_min2_const foldl_fl_max2_const)
qed

lemma py_int_zero: "py_int 0 = Inr 0"
  using DBL_MAX_lower by (simp add: py_int_def)

lemma range_of_finite_const: "range_of (Fin c) (Fin c) = Fin 1"
  by (simp add: range_of_def)

lemma gray_level_finite_const: "gray_level (Fin c) (Fin c) (Fin 1) = Inr 0"
  by (simp add: gray_level_def fl_sub_def py_int_zero)

lemma gray_level_zero_range: "gray_level (Fin c) (Fin c) (fl_sub (Fin c) (Fin c)) = Inl ValueError"
  by (simp add: gray_level_def fl_sub_def)

lemma gray_level_pinf: "gray_level PInf PInf (Fin 1) = Inl ValueError"
  by (simp add: gray_level_def fl_sub_def)

lemma second_pass_constant:
  assumes "concat values \<noteq> []" "\<forall>v\<in>set (concat values). v = Fin c"
  shows "second_pass values = Inr (map (map (\<lambda>_. 0)) values)"
proof -
  from np_min_max_const [OF assms]
  have mm: "np_min (concat values) = Inr (Fin c)" "np_max (concat values) = Inr (Fin c)"
    by simp_all
  have row: "collect (map (\<lambda>val. gray_level val (Fin c) (Fin 1)) row) = Inr (map (\<lambda>_. 0) row)"
    if "row \<in> set values" for row
  proof (rule collect_map_Inr, rule ballI)
    fix v assume "v \<in> set row"
    with that have "v \<in> set (concat values)" by auto
    with assms(2) have "v = Fin c" by blast
    then show "gray_level v (Fin c) (Fin 1) = Inr 0"
      by (simp add: gray_level_finite_const)
  qed
  have "collect (map (\<lambda>row. collect (map (\<lambda>val. gray_level val (Fin c) (Fin 1)) row)) values)
      = Inr (map (map (\<lambda>_. 0)) values)"
    by (rule collect_map_Inr) (simp add: row)
  then show ?thesis
    unfolding second_pass_def mm by (simp add: range_of_finite_const)
qed

text \<open>
  Claim C6, as written, fails for a uniform field whose value is not finite: with every
  element \<open>+inf\<close> the buffer is constant, the range is taken as 1, but \<open>val - data_min\<close> is
  \<open>inf - inf\<close>, that is NaN, and \<open>int()\<close> raises \<open>ValueError\<close>.
\<close>

theorem render_gray_uniform_inf_raises:
  "gray_level PInf PInf (range_of PInf PInf) = Inl ValueError \<and>
   render_gray (replicate 6599680 PInf) = Inl ValueError"
proof -
  let ?data = "replicate 6599680 PInf"
  have r: "range_of PInf PInf = Fin 1"
    by (simp add: range_of_def)
  have len: "length ?data = 6599680" and all: "\<forall>v\<in>set ?data. v = PInf"
    by simp_all
  then have ne: "?data \<noteq> []"
    by auto
  from np_min_max_const [OF ne all]
  have raw: "np_min ?data = Inr PInf" "np_max ?data = Inr PInf"
    by simp_all
  have fp: "first_pass ?data = Inr (replicate HEIGHT (replicate WIDTH PInf))"
    by (rule first_pass_uniform [OF len all])
  let ?buf = "replicate HEIGHT (replicate WIDTH PInf)"
  have pos: "0 < HEIGHT" "0 < WIDTH"
    by (simp_all add: HEIGHT_def WIDTH_def)
  then have ne2: "concat ?buf \<noteq> []"
    by simp
  have all2: "\<forall>v\<in>set (concat ?buf). v = PInf"
    by auto
  from np_min_max_const [OF ne2 all2]
  have mm: "np_min (concat ?buf) = Inr PInf" "np_max (concat ?buf) = Inr PInf"
    by simp_all
  have "collect (map (\<lambda>val. gray_level val PInf (Fin 1)) (replicate WIDTH PInf)) = Inl ValueError"
    using collect_replicate_Inl [of WIDTH "\<lambda>val. gray_level val PInf (Fin 1)" PInf ValueError]
      pos(2) gray_level_pinf by blast
  then have "collect (map (\<lambda>row. collect (map (\<lambda>val. gray_level val PInf (Fin 1)) row)) ?buf)
      = Inl ValueError"
    using collect_replicate_Inl [of HEIGHT
        "\<lambda>row. collect (map (\<lambda>val. gray_level val PInf (Fin 1)) row)"
        "replicate WIDTH PInf" ValueError] pos(1) by blast
  then have "second_pass ?buf = Inl ValueError"
    unfolding second_pass_def mm by (simp add: r)
  then have "render_gray ?data = Inl ValueError"
    by (simp add: render_gray_def raw fp)
  then show ?thesis
    by (simp add: r gray_level_pinf)
qed

text \<open>
  Claim C6, amended. For a finite value \<open>c\<close>: when minimum and maximum of the buffer are both
  \<open>c\<close> the range is taken as 1, the gray level of \<open>c\<close> is
  \<open>int(255 \<sqdot> (c - c) / 1)\<close> clamped to \<open>[0, 255]\<close>, that is 0, whereas dividing by the observed
  range \<open>c - c\<close> would give NaN and raise. Hence pass 2 maps every non-empty buffer that is
  constant at \<open>c\<close>, of whatever size, to the all-zero buffer without raising; and rendering
  a uniform input array of 6,599,680 values \<open>c\<close> in grayscale mode gives the all-zero
  \<open>HEIGHT \<times> WIDTH\<close> image.
\<close>

theorem render_gray_finite_constant_field:
  "range_of (Fin c) (Fin c) = Fin 1 \<and>
   gray_level (Fin c) (Fin c) (range_of (Fin c) (Fin c))
     = Inr (max 0 (min 255 (trunc (255 * (c - c) / 1)))) \<and>
   gray_level (Fin c) (Fin c) (range_of (Fin c) (Fin c)) = Inr 0 \<and>
   gray_level (Fin c) (Fin c) (fl_sub (Fin c) (Fin c)) = Inl ValueError \<and>
   (concat values \<noteq> [] \<and> (\<forall>v\<in>set (concat values). v = Fin c) \<longrightarrow>
      second_pass values = Inr (map (map (\<lambda>_. 0)) values)) \<and>
   (length data = 6599680 \<and> (\<forall>v\<in>set data. v = Fin c) \<longrightarrow>
      render_gray data = Inr (replicate HEIGHT (replicate WIDTH 0)))"
proof -
  have 1: "range_of (Fin c) (Fin c) = Fin 1"
    by (rule range_of_finite_const)
  have 3: "gray_level (Fin c) (Fin c) (range_of (Fin c) (Fin c)) = Inr 0"
    by (simp add: 1 gray_level_finite_const)
  have 2: "gray_level (Fin c) (Fin c) (range_of (Fin c) (Fin c))
     = Inr (max 0 (min 255 (trunc (255 * (c - c) / 1))))"
    by (simp add: 3)
  have 4: "gray_level (Fin c) (Fin c) (fl_sub (Fin c) (Fin c)) = Inl ValueError"
    by (rule gray_level_zero_range)
  have 5: "concat values \<noteq> [] \<and> (\<forall>v\<in>set (concat values). v = Fin c) \<longrightarrow>
      second_pass values = Inr (map (map (\<lambda>_. 0)) values)"
    using second_pass_constant by blast
  have 6: "length data = 6599680 \<and> (\<forall>v\<in>set data. v = Fin c) \<longrightarrow>
      render_gray data = Inr (replicate HEIGHT (replicate WIDTH 0))"
  proof
    assume a: "length data = 6599680 \<and> (\<forall>v\<in>set data. v = Fin c)"
    then have ne0: "data \<noteq> []"
      by auto
    from np_min_max_const [OF ne0] a
    have raw: "np_min data = Inr (Fin c)" "np_max data = Inr (Fin c)"
      by simp_all
    from a have fp: "first_pass data = Inr (replicate HEIGHT (replicate WIDTH (Fin c)))"
      using first_pass_uniform by blast
    let ?buf = "replicate HEIGHT (replicate WIDTH (Fin c))"
    have ne: "concat ?buf \<noteq> []"
      by (simp add: HEIGHT_def WIDTH_def)
    have all: "\<forall>v\<in>set (concat ?buf). v = Fin c"
      by auto
    from second_pass_constant [OF ne all]
    show "render_gray data = Inr (replicate HEIGHT (replicate WIDTH 0))"
      by (simp add: render_gray_def raw fp)
  qed
  from 1 2 3 4 5 6 show ?thesis by blast
qed

theorem render_gray_finite_constant_field_witness:
  "second_pass [[Fin 3, Fin 3], [Fin 3]] = Inr [[0, 0], [0]] \<and>
   render_gray (replicate 6599680 (Fin (- 20))) = Inr (replicate HEIGHT (replicate WIDTH 0))"
proof -
  have h1: "concat [[Fin 3, Fin 3], [Fin 3]] \<noteq> [] \<and>
      (\<forall>v\<in>set (concat [[Fin 3, Fin 3], [Fin 3]]). v = Fin 3)"
    by simp
  have h2: "length (replicate 6599680 (Fin (- 20))) = 6599680 \<and>
      (\<forall>v\<in>set (replicate 6599680 (Fin (- 20))). v = Fin (- 20))"
    by simp
  from render_gray_finite_constant_field [of 3 "[[Fin 3, Fin 3], [Fin 3]]"] h1
  have 1: "second_pass [[Fin 3, Fin 3], [Fin 3]] = Inr [[0, 0], [0]]"
    by simp
  from render_gray_finite_constant_field [of "- 20" _ "replicate 6599680 (Fin (- 20))"] h2
  have 2: "render_gray (replicate 6599680 (Fin (- 20)))
      = Inr (replicate HEIGHT (replicate WIDTH 0))"
    by blast
  from 1 2 show ?thesis by blast
qed

section \<open>The cyclone wind field\<close>

lemma wrap_dlon_zero: "wrap_dlon 0 = 0"
proof -
  have "\<not> (0 > pi)" "\<not> (0 < - pi)"
    using pi_gt_zero by linarith+
  then show ?thesis
    by (simp add: wrap_dlon_def)
qed

lemma dist_safe_pos: "0 < dist_safe d"
  by (simp add: dist_safe_def max_def)

lemma fl_div_finite: "b \<noteq> 0 \<Longrightarrow> fl_div (Fin a) (Fin b) = Fin (a / b)"
  by simp

text \<open>With the floor in place every quotient is finite, and so are both components.\<close>

lemma cyclone_point_finite:
  "cyclone_point lat lon center_lat center_lon max_wind core_radius outer_radius =
     (let d = angular_distance lat lon center_lat center_lon;
          speed = cyclone_speed d max_wind core_radius outer_radius
      in (Fin (speed * ((lat - center_lat) / dist_safe d
                    + 0.3 * (- (wrap_dlon (lon - center_lon) * cos lat) / dist_safe d))),
          Fin (speed * (- (wrap_dlon (lon - center_lon) * cos lat) / dist_safe d
                    + 0.3 * (- (lat - center_lat) / dist_safe d)))))"
proof -
  have nz: "dist_safe d \<noteq> 0" for d
    using dist_safe_pos [of d] by simp
  show ?thesis
    unfolding cyclone_point_def angular_distance_def Let_def
    by (simp only: fl_div_finite [OF nz] fl_mul.simps fl_add.simps)
qed

lemma cyclone_speed_centre:
  assumes "0 < core_radius"
  shows "cyclone_speed 0 max_wind core_radius outer_radius = 0"
  using assms by (simp add: cyclone_speed_def speed_inside_def)

lemma cyclone_speed_inside:
  assumes "d < core_radius"
  shows "cyclone_speed d max_wind core_radius outer_radius = speed_inside max_wind d core_radius"
  using assms by (simp add: cyclone_speed_def)

lemma cyclone_speed_between:
  assumes "core_radius \<le> d" "d < outer_radius"
  shows "cyclone_speed d max_wind core_radius outer_radius
     = speed_between max_wind d core_radius outer_radius"
  using assms by (simp add: cyclone_speed_def)

lemma cyclone_speed_outside:
  assumes "core_radius < outer_radius" "outer_radius \<le> d"
  shows "cyclone_speed d max_wind core_radius outer_radius = 0"
  using assms by (simp add: cyclone_speed_def)

lemma cyclone_speed_near_core:
  assumes "0 < core_radius" "core_radius < outer_radius" "d < outer_radius"
  shows "cyclone_speed d max_wind core_radius outer_radius
     = max_wind * min (d / core_radius) (1 - (d - core_radius) / (outer_radius - core_radius))"
proof (cases "d < core_radius")
  case True
  then have "d / core_radius < 1"
    using assms(1) by simp
  moreover have "(d - core_radius) / (outer_radius - core_radius) < 0"
    using True assms(2) by (simp add: divide_neg_pos)
  ultimately have "min (d / core_radius) (1 - (d - core_radius) / (outer_radius - core_radius))
      = d / core_radius"
    by simp
  with True show ?thesis
    by (simp add: cyclone_speed_def speed_inside_def)
next
  case False
  then have "1 \<le> d / core_radius"
    using assms(1) by simp
  moreover have "0 \<le> (d - core_radius) / (outer_radius - core_radius)"
    using False assms(2) by simp
  ultimately have "min (d / core_radius) (1 - (d - core_radius) / (outer_radius - core_radius))
      = 1 - (d - core_radius) / (outer_radius - core_radius)"
    by simp
  with False assms(3) show ?thesis
    by (simp add: cyclone_speed_def speed_between_def)
qed

lemma cyclone_speed_isCont:
  assumes "0 < core_radius" "core_radius < outer_radius"
  shows "isCont (\<lambda>d. cyclone_speed d max_wind core_radius outer_radius) core_radius"
proof -
  let ?g = "\<lambda>d. max_wind * min (d / core_radius)
      (1 - (d - core_radius) / (outer_radius - core_radius))"
  have "isCont ?g core_radius"
    by (intro continuous_intros) (use assms in simp_all)
  moreover have "eventually (\<lambda>d. cyclone_speed d max_wind core_radius outer_radius = ?g d)
      (nhds core_radius)"
  proof -
    have "open {..<outer_radius}" by simp
    moreover have "core_radius \<in> {..<outer_radius}" using assms(2) by simp
    moreover have "\<forall>d\<in>{..<outer_radius}. cyclone_speed d max_wind core_radius outer_radius = ?g d"
      using cyclone_speed_near_core [OF assms] by simp
    ultimately show ?thesis
      unfolding eventually_nhds by blast
  qed
  ultimately show ?thesis
    by (simp add: isCont_cong)
qed

text \<open>
  Claim C7. For radii \<open>0 < core_radius < outer_radius\<close> (the defaults are 0.1 and 0.8).
  The speed is the inside-core formula below \<open>core_radius\<close>, the between-zone formula from
  \<open>core_radius\<close> up to \<open>outer_radius\<close> and 0 from \<open>outer_radius\<close> on; at \<open>core_radius\<close> both
  formulas give \<open>max_wind\<close>, and the speed is a continuous function of the distance there.
  At the exact centre the distance is 0, the speed is 0, the divisor is the floor \<open>10\<^sup>-\<^sup>6\<close>
  and both wind components are the finite value 0, whereas the quotient by the distance
  itself would be \<open>0/0\<close>, that is NaN. At every point both components are finite, and from
  \<open>outer_radius\<close> on both are 0.
\<close>

theorem cyclone_speed_profile:
  "0 < core_radius \<and> core_radius < outer_radius \<longrightarrow>
   speed_inside max_wind core_radius core_radius = max_wind \<and>
   speed_between max_wind core_radius core_radius outer_radius = max_wind \<and>
   cyclone_speed core_radius max_wind core_radius outer_radius = max_wind \<and>
   (\<forall>d. d < core_radius \<longrightarrow>
      cyclone_speed d max_wind core_radius outer_radius = max_wind * (d / core_radius)) \<and>
   (\<forall>d. core_radius \<le> d \<and> d < outer_radius \<longrightarrow>
      cyclone_speed d max_wind core_radius outer_radius
        = max_wind * (1 - (d - core_radius) / (outer_radius - core_radius))) \<and>
   (\<forall>d. outer_radius \<le> d \<longrightarrow> cyclone_speed d max_wind core_radius outer_radius = 0) \<and>
   isCont (\<lambda>d. cyclone_speed d max_wind core_radius outer_radius) core_radius \<and>
   angular_distance center_lat center_lon center_lat center_lon = 0 \<and>
   cyclone_speed 0 max_wind core_radius outer_radius = 0 \<and>
   dist_safe 0 = 1 / 1000000 \<and>
   fl_div (Fin 0) (Fin (dist_safe 0)) = Fin 0 \<and>
   fl_div (Fin 0) (Fin 0) = NaN \<and>
   fl_mul (Fin 0) NaN = NaN \<and>
   cyclone_point center_lat center_lon center_lat center_lon max_wind core_radius outer_radius
     = (Fin 0, Fin 0) \<and>
   generate_cyclone [center_lat] [center_lon] center_lat center_lon max_wind core_radius
     outer_radius = ([Fin 0], [Fin 0]) \<and>
   (\<forall>lat lon. \<exists>u v.
      cyclone_point lat lon center_lat center_lon max_wind core_radius outer_radius
        = (Fin u, Fin v)) \<and>
   (\<forall>lat lon. outer_radius \<le> angular_distance lat lon center_lat center_lon \<longrightarrow>
      cyclone_point lat lon center_lat center_lon max_wind core_radius outer_radius
        = (Fin 0, Fin 0))"
proof
  assume a: "0 < core_radius \<and> core_radius < outer_radius"
  then have core: "0 < core_radius" and outer: "core_radius < outer_radius"
    by simp_all
  have 1: "speed_inside max_wind core_radius core_radius = max_wind"
    using core by (simp add: speed_inside_def)
  have 2: "speed_between max_wind core_radius core_radius outer_radius = max_wind"
    by (simp add: speed_between_def)
  have 3: "cyclone_speed core_radius max_wind core_radius outer_radius = max_wind"
    using cyclone_speed_between [of core_radius core_radius outer_radius max_wind] outer 2
    by simp
  have 4: "\<forall>d. d < core_radius \<longrightarrow>
      cyclone_speed d max_wind core_radius outer_radius = max_wind * (d / core_radius)"
    by (simp add: cyclone_speed_inside speed_inside_def)
  have 5: "\<forall>d. core_radius \<le> d \<and> d < outer_radius \<longrightarrow>
      cyclone_speed d max_wind core_radius outer_radius
        = max_wind * (1 - (d - core_radius) / (outer_radius - core_radius))"
    by (simp add: cyclone_speed_between speed_between_def)
  have 6: "\<forall>d. outer_radius \<le> d \<longrightarrow> cyclone_speed d max_wind core_radius outer_radius = 0"
    using cyclone_speed_outside [OF outer] by blast
  have 7: "isCont (\<lambda>d. cyclone_speed d max_wind core_radius outer_radius) core_radius"
    by (rule cyclone_speed_isCont [OF core outer])
  have 8: "angular_distance center_lat center_lon center_lat center_lon = 0"
    by (simp add: angular_distance_def wrap_dlon_zero)
  have 9: "cyclone_speed 0 max_wind core_radius outer_radius = 0"
    by (rule cyclone_speed_centre [OF core])
  have 10: "dist_safe 0 = 1 / 1000000"
    by (simp add: dist_safe_def)
  have 11: "fl_div (Fin 0) (Fin (dist_safe 0)) = Fin 0"
    by (simp add: 10)
  have 12: "fl_div (Fin 0) (Fin 0) = NaN" "fl_mul (Fin 0) NaN = NaN"
    by simp_all
  have 13: "cyclone_point center_lat center_lon center_lat center_lon max_wind core_radius
      outer_radius = (Fin 0, Fin 0)"
    by (simp add: cyclone_point_finite 8 9)
  have 14: "generate_cyclone [center_lat] [center_lon] center_lat center_lon max_wind
      core_radius outer_radius = ([Fin 0], [Fin 0])"
    by (simp add: generate_cyclone_def 13)
  have 15: "\<forall>lat lon. \<exists>u v.
      cyclone_point lat lon center_lat center_lon max_wind core_radius outer_radius
        = (Fin u, Fin v)"
    by (simp add: cyclone_point_finite Let_def)
  have 16: "\<forall>lat lon. outer_radius \<le> angular_distance lat lon center_lat center_lon \<longrightarrow>
      cyclone_point lat lon center_lat center_lon max_wind core_radius outer_radius
        = (Fin 0, Fin 0)"
    using cyclone_speed_outside [OF outer] by (simp add: cyclone_point_finite Let_def)
  from 1 2 3 4 5 6 7 8 9 10 11 12 13 14 15 16
  show "speed_inside max_wind core_radius core_radius = max_wind \<and>
   speed_between max_wind core_radius core_radius outer_radius = max_wind \<and>
   cyclone_speed core_radius max_wind core_radius outer_radius = max_wind \<and>
   (\<forall>d. d < core_radius \<longrightarrow>
      cyclone_speed d max_wind core_radius outer_radius = max_wind * (d / core_radius)) \<and>
   (\<forall>d. core_radius \<le> d \<and> d < outer_radius \<longrightarrow>
      cyclone_speed d max_wind core_radius outer_radius
        = max_wind * (1 - (d - core_radius) / (outer_radius - core_radius))) \<and>
   (\<forall>d. outer_radius \<le> d \<longrightarrow> cyclone_speed d max_wind core_radius outer_radius = 0) \<and>
   isCont (\<lambda>d. cyclone_speed d max_wind core_radius outer_radius) core_radius \<and>
   angular_distance center_lat center_lon center_lat center_lon = 0 \<and>
   cyclone_speed 0 max_wind core_radius outer_radius = 0 \<and>
   dist_safe 0 = 1 / 1000000 \<and>
   fl_div (Fin 0) (Fin (dist_safe 0)) = Fin 0 \<and>
   fl_div (Fin 0) (Fin 0) = NaN \<and>
   fl_mul (Fin 0) NaN = NaN \<and>
   cyclone_point center_lat center_lon center_lat center_lon max_wind core_radius outer_radius
     = (Fin 0, Fin 0) \<and>
   generate_cyclone [center_lat] [center_lon] center_lat center_lon max_wind core_radius
     outer_radius = ([Fin 0], [Fin 0]) \<and>
   (\<forall>lat lon. \<exists>u v.
      cyclone_point lat lon center_lat center_lon max_wind core_radius outer_radius
        = (Fin u, Fin v)) \<and>
   (\<forall>lat lon. outer_radius \<le> angular_distance lat lon center_lat center_lon \<longrightarrow>
      cyclone_point lat lon center_lat center_lon max_wind core_radius outer_radius
        = (Fin 0, Fin 0))"
    by blast
qed

theorem cyclone_speed_profile_witness:
  "speed_inside 25 (1 / 10) (1 / 10) = 25 \<and>
   speed_between 25 (1 / 10) (1 / 10) (8 / 10) = 25 \<and>
   cyclone_speed (1 / 20) 25 (1 / 10) (8 / 10) = 25 / 2 \<and>
   cyclone_speed (45 / 100) 25 (1 / 10) (8 / 10) = 25 / 2 \<and>
   cyclone_speed 1 25 (1 / 10) (8 / 10) = 0 \<and>
   isCont (\<lambda>d. cyclone_speed d 25 (1 / 10) (8 / 10)) (1 / 10) \<and>
   cyclone_point 0 0 0 0 25 (1 / 10) (8 / 10) = (Fin 0, Fin 0) \<and>
   cyclone_point 1 0 0 0 25 (1 / 10) (8 / 10) = (Fin 0, Fin 0)"
proof -
  have radii: "(0 :: real) < 1 / 10 \<and> (1 / 10 :: real) < 8 / 10"
    by simp
  have ins: "(1 / 20 :: real) < 1 / 10"
    by simp
  have btw: "(1 / 10 :: real) \<le> 45 / 100 \<and> (45 / 100 :: real) < 8 / 10"
    by simp
  have far: "(8 / 10 :: real) \<le> 1"
    by simp
  have "angular_distance 1 0 0 0 = 1"
    by (simp add: angular_distance_def wrap_dlon_zero)
  then have far2: "8 / 10 \<le> angular_distance 1 0 0 0"
    by simp
  note inst = cyclone_speed_profile [of "1 / 10" "8 / 10" 25 0 0, rule_format, OF radii]
  from inst have 1: "speed_inside 25 (1 / 10) (1 / 10) = 25"
    and 2: "speed_between 25 (1 / 10) (1 / 10) (8 / 10) = 25"
    and 3: "cyclone_point 0 0 0 0 25 (1 / 10) (8 / 10) = (Fin 0, Fin 0)"
    and 4: "isCont (\<lambda>d. cyclone_speed d 25 (1 / 10) (8 / 10)) (1 / 10)"
    by blast+
  from inst ins have "cyclone_speed (1 / 20) 25 (1 / 10) (8 / 10) = 25 * ((1 / 20) / (1 / 10))"
    by blast
  then have 5: "cyclone_speed (1 / 20) 25 (1 / 10) (8 / 10) = 25 / 2"
    by simp
  from inst btw have "cyclone_speed (45 / 100) 25 (1 / 10) (8 / 10)
      = 25 * (1 - (45 / 100 - 1 / 10) / (8 / 10 - 1 / 10))"
    by blast
  then have 6: "cyclone_speed (45 / 100) 25 (1 / 10) (8 / 10) = 25 / 2"
    by simp
  from inst far have 7: "cyclone_speed 1 25 (1 / 10) (8 / 10) = 0"
    by blast
  from inst far2 have 8: "cyclone_point 1 0 0 0 25 (1 / 10) (8 / 10) = (Fin 0, Fin 0)"
    by blast
  from 1 2 3 4 5 6 7 8 show ?thesis by blast
qed

section \<open>The pressure field\<close>

lemma two_pi_pos: "0 < 2 * pi"
  by simp

lemma spec_wrap_eq:
  assumes "2 * pi * (real_of_int k - 1) < d - pi" "d - pi \<le> 2 * pi * real_of_int k"
  shows "spec_wrap d = d - 2 * pi * real_of_int k"
proof -
  have "real_of_int k - 1 < (d - pi) / (2 * pi)"
    using assms(1) two_pi_pos by (simp only: pos_less_divide_eq mult.commute)
  moreover have "(d - pi) / (2 * pi) \<le> real_of_int k"
    using assms(2) two_pi_pos by (simp only: pos_divide_le_eq mult.commute)
  ultimately have "\<lceil>(d - pi) / (2 * pi)\<rceil> = k"
    by (rule ceiling_unique)
  then show ?thesis
    by (simp add: spec_wrap_def)
qed

lemma spec_wrap_range: "- pi < spec_wrap d \<and> spec_wrap d \<le> pi"
proof -
  define k where "k = \<lceil>(d - pi) / (2 * pi)\<rceil>"
  have "real_of_int k - 1 < (d - pi) / (2 * pi)" "(d - pi) / (2 * pi) \<le> real_of_int k"
    unfolding k_def by linarith+
  then have "(real_of_int k - 1) * (2 * pi) < d - pi" "d - pi \<le> real_of_int k * (2 * pi)"
    using two_pi_pos by (simp_all only: pos_less_divide_eq pos_divide_le_eq)
  then have "- pi < d - 2 * pi * real_of_int k" "d - 2 * pi * real_of_int k \<le> pi"
    by (simp_all add: algebra_simps)
  then show ?thesis
    by (simp add: spec_wrap_def k_def)
qed

lemma wrap_dlon_abs:
  assumes "- (3 * pi) \<le> d" "d \<le> 3 * pi"
  shows "\<bar>wrap_dlon d\<bar> = \<bar>spec_wrap d\<bar>"
proof -
  have pp: "0 < pi" by simp
  consider (a) "pi < d" | (b) "- pi < d \<and> d \<le> pi" | (c) "d = - pi"
    | (d) "- (3 * pi) < d \<and> d < - pi" | (e) "d = - (3 * pi)"
    using assms by linarith
  then show ?thesis
  proof cases
    case a
    have "spec_wrap d = d - 2 * pi * real_of_int 1"
      using a assms by (intro spec_wrap_eq) simp_all
    moreover have "wrap_dlon d = d - 2 * pi"
      using a pp by (simp add: wrap_dlon_def)
    ultimately show ?thesis by simp
  next
    case b
    have "spec_wrap d = d - 2 * pi * real_of_int 0"
      using b by (intro spec_wrap_eq) simp_all
    moreover have "wrap_dlon d = d"
      using b by (simp add: wrap_dlon_def)
    ultimately show ?thesis by simp
  next
    case c
    have "spec_wrap d = d - 2 * pi * real_of_int (- 1)"
      using c pp by (intro spec_wrap_eq) simp_all
    moreover have "wrap_dlon d = d"
      using c pp by (simp add: wrap_dlon_def)
    ultimately show ?thesis using c by simp
  next
    case d
    have "spec_wrap d = d - 2 * pi * real_of_int (- 1)"
      using d by (intro spec_wrap_eq) simp_all
    moreover have "wrap_dlon d = d + 2 * pi"
      using d pp by (simp add: wrap_dlon_def)
    ultimately show ?thesis by simp
  next
    case e
    have "spec_wrap d = d - 2 * pi * real_of_int (- 2)"
      using e pp by (intro spec_wrap_eq) simp_all
    moreover have "wrap_dlon d = d + 2 * pi"
      using e pp by (simp add: wrap_dlon_def)
    ultimately show ?thesis using e by simp
  qed
qed

lemma angular_distance_spec:
  assumes "- (3 * pi) \<le> lon - center_lon" "lon - center_lon \<le> 3 * pi"
  shows "angular_distance lat lon center_lat center_lon = spec_dist lat lon center_lat center_lon"
proof -
  have "(wrap_dlon (lon - center_lon))\<^sup>2 = \<bar>wrap_dlon (lon - center_lon)\<bar>\<^sup>2"
    by simp
  also have "\<dots> = \<bar>spec_wrap (lon - center_lon)\<bar>\<^sup>2"
    by (simp only: wrap_dlon_abs [OF assms])
  finally have "(wrap_dlon (lon - center_lon))\<^sup>2 = (spec_wrap (lon - center_lon))\<^sup>2"
    by simp
  then have "(wrap_dlon (lon - center_lon) * cos lat)\<^sup>2 = (spec_wrap (lon - center_lon) * cos lat)\<^sup>2"
    by (simp add: power_mult_distrib)
  then show ?thesis
    by (simp add: angular_distance_def spec_dist_def)
qed

lemma influence_spec:
  assumes "- (3 * pi) \<le> lon - center_lon" "lon - center_lon \<le> 3 * pi"
  shows "(target - BASE_PRESSURE)
      * influence (angular_distance lat lon center_lat center_lon) (INFLUENCE_RADIUS / 2)
    = spec_anomaly target lat lon center_lat center_lon"
  by (simp only: influence_def spec_anomaly_def angular_distance_spec [OF assms])

lemma clip_range: "97600 \<le> clip x 97600 104800 \<and> clip x 97600 104800 \<le> 104800"
  by (simp add: clip_def)

lemma ring_points_lon:
  assumes "p \<in> set (ring_points r)"
  shows "0 \<le> snd p \<and> snd p < 2 * pi"
proof -
  define n where "n = points_in_ring r"
  have npos: "0 < real n"
    by (simp add: n_def points_in_ring_def)
  from assms obtain i where i: "i < n" "snd p = (2 * pi * real i) / real n"
    by (auto simp: ring_points_def Let_def n_def)
  have "0 \<le> (2 * pi * real i) / real n"
    by simp
  moreover have "2 * pi * real i < 2 * pi * real n"
    using i(1) by simp
  then have "(2 * pi * real i) / real n < 2 * pi"
    using npos by (simp only: pos_divide_less_eq)
  ultimately show ?thesis
    by (simp add: i(2))
qed

lemma grid_lons_range:
  "\<forall>lon\<in>set (snd generate_gaussian_grid). 0 \<le> lon \<and> lon < 2 * pi"
proof
  fix lon assume "lon \<in> set (snd generate_gaussian_grid)"
  then obtain p r where "p \<in> set (ring_points r)" "lon = snd p"
    by (auto simp: generate_gaussian_grid_def Let_def)
  with ring_points_lon show "0 \<le> lon \<and> lon < 2 * pi"
    by blast
qed

lemma length_ring_points: "length (ring_points r) = points_in_ring r"
  by (simp add: ring_points_def Let_def)

lemma grid_length:
  "length (fst generate_gaussian_grid) = O1280_POINTS \<and>
   length (snd generate_gaussian_grid) = O1280_POINTS"
proof -
  have "length (concat (map ring_points [0..<NUM_RINGS]))
      = sum_list (map points_in_ring [0..<NUM_RINGS])"
    by (simp add: length_concat comp_def length_ring_points)
  also have "\<dots> = (\<Sum>j<NUM_RINGS. points_in_ring j)"
    by (simp add: interv_sum_list_conv_sum_set_nat lessThan_atLeast0)
  finally show ?thesis
    by (simp add: generate_gaussian_grid_def Let_def total_points O1280_POINTS_def)
qed

lemma pressure_field_spec:
  assumes "0 \<le> lon" "lon < 2 * pi"
  shows "pressure_field lat lon =
     BASE_PRESSURE
       + spec_anomaly LOW_PRESSURE lat lon (radians LOW_LAT) (radians LOW_LON)
       + spec_anomaly LOW_PRESSURE lat lon (- radians LOW_LAT) (radians LOW_LON + pi)
       + spec_anomaly HIGH_PRESSURE lat lon (radians HIGH_LAT) (radians HIGH_LON)
       + spec_anomaly HIGH_PRESSURE lat lon (- radians HIGH_LAT) (radians HIGH_LON + pi)"
proof -
  have pp: "0 < pi" by simp
  have low: "radians LOW_LON = pi / 18" and high: "radians HIGH_LON = - (pi / 18)"
    by (simp_all add: radians_def LOW_LON_def HIGH_LON_def)
  have b1: "- (3 * pi) \<le> lon - radians LOW_LON" "lon - radians LOW_LON \<le> 3 * pi"
    unfolding low using assms pp by linarith+
  have b2: "- (3 * pi) \<le> lon - (radians LOW_LON + pi)" "lon - (radians LOW_LON + pi) \<le> 3 * pi"
    unfolding low using assms pp by linarith+
  have b3: "- (3 * pi) \<le> lon - radians HIGH_LON" "lon - radians HIGH_LON \<le> 3 * pi"
    unfolding high using assms pp by linarith+
  have b4: "- (3 * pi) \<le> lon - (radians HIGH_LON + pi)" "lon - (radians HIGH_LON + pi) \<le> 3 * pi"
    unfolding high using assms pp by linarith+
  show ?thesis
    unfolding pressure_field_def Let_def distrib_left
      influence_spec [OF b1] influence_spec [OF b2] influence_spec [OF b3] influence_spec [OF b4]
    by simp
qed

text \<open>
  Claim C8. For coordinate arrays of equal length and any noise, \<open>generate_pressure\<close>
  returns one value per point, the clamped sum of the field and the point's noise, and
  every value lies in \<open>[97600, 104800]\<close>. At every longitude in \<open>[0, 2\<pi>)\<close>, where all grid
  longitudes lie, the field before noise is the base pressure plus four anomalies
  \<open>(target - base) \<sqdot> exp(-0.5 \<sqdot> (dist / \<sigma>)\<^sup>2)\<close>, \<open>\<sigma> = influenceRadius / 2\<close>: for the low and the
  high centre and for the mirror \<open>(-lat, lon + \<pi>)\<close> of each, with
  \<open>dist = sqrt(dlat\<^sup>2 + (dlon \<sqdot> cos lat)\<^sup>2)\<close> and \<open>dlon\<close> wrapped into \<open>(-\<pi>, \<pi>]\<close>.
\<close>

theorem generate_pressure_field:
  "(length lats = length lons \<longrightarrow>
      length (generate_pressure noise lats lons) = length lats \<and>
      (\<forall>i<length lats. generate_pressure noise lats lons ! i
          = clip (pressure_field (lats ! i) (lons ! i) + noise i) 97600 104800) \<and>
      (\<forall>p\<in>set (generate_pressure noise lats lons). 97600 \<le> p \<and> p \<le> 104800)) \<and>
   (\<forall>lat lon. 0 \<le> lon \<and> lon < 2 * pi \<longrightarrow>
      pressure_field lat lon =
        BASE_PRESSURE
          + spec_anomaly LOW_PRESSURE lat lon (radians LOW_LAT) (radians LOW_LON)
          + spec_anomaly LOW_PRESSURE lat lon (- radians LOW_LAT) (radians LOW_LON + pi)
          + spec_anomaly HIGH_PRESSURE lat lon (radians HIGH_LAT) (radians HIGH_LON)
          + spec_anomaly HIGH_PRESSURE lat lon (- radians HIGH_LAT) (radians HIGH_LON + pi)) \<and>
   (\<forall>d. - pi < spec_wrap d \<and> spec_wrap d \<le> pi \<and>
        spec_wrap d = d - 2 * pi * of_int \<lceil>(d - pi) / (2 * pi)\<rceil>) \<and>
   (\<forall>lon\<in>set (snd generate_gaussian_grid). 0 \<le> lon \<and> lon < 2 * pi) \<and>
   length (fst generate_gaussian_grid) = O1280_POINTS \<and>
   length (snd generate_gaussian_grid) = O1280_POINTS"
proof -
  have 1: "length lats = length lons \<longrightarrow>
      length (generate_pressure noise lats lons) = length lats \<and>
      (\<forall>i<length lats. generate_pressure noise lats lons ! i
          = clip (pressure_field (lats ! i) (lons ! i) + noise i) 97600 104800) \<and>
      (\<forall>p\<in>set (generate_pressure noise lats lons). 97600 \<le> p \<and> p \<le> 104800)"
  proof
    assume len: "length lats = length lons"
    have a: "length (generate_pressure noise lats lons) = length lats"
      using len by (simp add: generate_pressure_def)
    have b: "\<forall>i<length lats. generate_pressure noise lats lons ! i
          = clip (pressure_field (lats ! i) (lons ! i) + noise i) 97600 104800"
      using len by (simp add: generate_pressure_def)
    have c: "\<forall>p\<in>set (generate_pressure noise lats lons). 97600 \<le> p \<and> p \<le> 104800"
      using clip_range by (auto simp: generate_pressure_def)
    from a b c show "length (generate_pressure noise lats lons) = length lats \<and>
      (\<forall>i<length lats. generate_pressure noise lats lons ! i
          = clip (pressure_field (lats ! i) (lons ! i) + noise i) 97600 104800) \<and>
      (\<forall>p\<in>set (generate_pressure noise lats lons). 97600 \<le> p \<and> p \<le> 104800)"
      by blast
  qed
  have 2: "\<forall>lat lon. 0 \<le> lon \<and> lon < 2 * pi \<longrightarrow>
      pressure_field lat lon =
        BASE_PRESSURE
          + spec_anomaly LOW_PRESSURE lat lon (radians LOW_LAT) (radians LOW_LON)
          + spec_anomaly LOW_PRESSURE lat lon (- radians LOW_LAT) (radians LOW_LON + pi)
          + spec_anomaly HIGH_PRESSURE lat lon (radians HIGH_LAT) (radians HIGH_LON)
          + spec_anomaly HIGH_PRESSURE lat lon (- radians HIGH_LAT) (radians HIGH_LON + pi)"
    using pressure_field_spec by blast
  have 3: "\<forall>d. - pi < spec_wrap d \<and> spec_wrap d \<le> pi \<and>
        spec_wrap d = d - 2 * pi * of_int \<lceil>(d - pi) / (2 * pi)\<rceil>"
    using spec_wrap_range by (simp add: spec_wrap_def)
  from 1 2 3 grid_lons_range grid_length show ?thesis
    by blast
qed

theorem generate_pressure_field_witness:
  "length (generate_pressure (\<lambda>i. 50) [0, 1 / 2] [1, 2]) = 2 \<and>
   generate_pressure (\<lambda>i. 50) [0, 1 / 2] [1, 2] ! 1
     = clip (pressure_field (1 / 2) 2 + 50) 97600 104800 \<and>
   97600 \<le> generate_pressure (\<lambda>i. 50) [0, 1 / 2] [1, 2] ! 1 \<and>
   generate_pressure (\<lambda>i. 50) [0, 1 / 2] [1, 2] ! 1 \<le> 104800 \<and>
   pressure_field 0 1 =
     BASE_PRESSURE
       + spec_anomaly LOW_PRESSURE 0 1 (radians LOW_LAT) (radians LOW_LON)
       + spec_anomaly LOW_PRESSURE 0 1 (- radians LOW_LAT) (radians LOW_LON + pi)
       + spec_anomaly HIGH_PRESSURE 0 1 (radians HIGH_LAT) (radians HIGH_LON)
       + spec_anomaly HIGH_PRESSURE 0 1 (- radians HIGH_LAT) (radians HIGH_LON + pi)"
proof -
  have len: "length [0, 1 / 2 :: real] = length [1, 2 :: real]"
    by simp
  have lon: "(0 :: real) \<le> 1 \<and> (1 :: real) < 2 * pi"
    using pi_ge_two by simp
  note inst = generate_pressure_field [of "[0, 1 / 2]" "[1, 2]" "\<lambda>i. 50"]
  from inst len have n: "length (generate_pressure (\<lambda>i. 50) [0, 1 / 2] [1, 2]) = 2"
    and nth: "\<forall>i<length [0, 1 / 2 :: real]. generate_pressure (\<lambda>i. 50) [0, 1 / 2] [1, 2] ! i
          = clip (pressure_field ([0, 1 / 2] ! i) ([1, 2] ! i) + 50) 97600 104800"
    and rng: "\<forall>p\<in>set (generate_pressure (\<lambda>i. 50) [0, 1 / 2] [1, 2]). 97600 \<le> p \<and> p \<le> 104800"
    by simp_all
  from nth have e0: "generate_pressure (\<lambda>i. 50) [0, 1 / 2] [1, 2] ! 0
      = clip (pressure_field 0 1 + 50) 97600 104800"
    and e1: "generate_pressure (\<lambda>i. 50) [0, 1 / 2] [1, 2] ! 1
      = clip (pressure_field (1 / 2) 2 + 50) 97600 104800"
    by simp_all
  note 1 = n e1
  from n have "generate_pressure (\<lambda>i. 50) [0, 1 / 2] [1, 2] ! 1
      \<in> set (generate_pressure (\<lambda>i. 50) [0, 1 / 2] [1, 2])"
    by (intro nth_mem) simp
  with rng have 2: "97600 \<le> generate_pressure (\<lambda>i. 50) [0, 1 / 2] [1, 2] ! 1 \<and>
      generate_pressure (\<lambda>i. 50) [0, 1 / 2] [1, 2] ! 1 \<le> 104800"
    by blast
  from inst lon have 3: "pressure_field 0 1 =
     BASE_PRESSURE
       + spec_anomaly LOW_PRESSURE 0 1 (radians LOW_LAT) (radians LOW_LON)
       + spec_anomaly LOW_PRESSURE 0 1 (- radians LOW_LAT) (radians LOW_LON + pi)
       + spec_anomaly HIGH_PRESSURE 0 1 (radians HIGH_LAT) (radians HIGH_LON)
       + spec_anomaly HIGH_PRESSURE 0 1 (- radians HIGH_LAT) (radians HIGH_LON + pi)"
    by blast
  from 1 2 3 show ?thesis by blast
qed

end
